theory Spec2Isabelle
  imports Main "HOL-Library.AList"
begin

text \<open>
  A model of the Gmail tool broker of \<open>src/lib/ai/tools/gmail.ts\<close>: the invocation
  executor \<open>executeGmailToolEnhanced\<close> with its result cache, timeout race and retry
  loop, the legacy wrapper \<open>executeGmailTool\<close> and the tools built on it, the query
  builder \<open>buildGmailQuery\<close> and the list normalizer \<open>formatEmailResults\<close>.

  Asynchronous code is modelled sequentially: one call of the executor runs from its first
  statement to its return or throw, and the cache it leaves is the cache the next call
  finds. Everything the executor does to the outside (credential lookup, connect, remote
  call, close, sleep) is recorded, in order, in a trace of events. What the outside answers
  is an input of the model (the record \<open>world\<close>).
\<close>

section \<open>JavaScript values\<close>

text \<open>
  The values the code handles with static type \<open>any\<close>: tool arguments, remote replies and
  parsed JSON. An object is the list of its own properties in enumeration order. A number
  is an integer (\<open>JNum\<close>); a number that a JSON text writes with a fraction or an exponent
  is kept by its literal (\<open>JDec\<close>). Strings are byte strings (UTF-8).
\<close>

datatype jsval =
    JUndefined
  | JNull
  | JBool bool
  | JNum int
  | JDec string
  | JStr string
  | JArr "jsval list"
  | JObj "(string \<times> jsval) list"

text \<open>An object given by its properties.\<close>

type_synonym js_object = "(string \<times> jsval) list"

text \<open>A thrown value: an \<open>Error\<close> or a \<open>TypeError\<close> with its message.\<close>

datatype exn = Error string | TypeError string

text \<open>Truthiness (\<open>ToBoolean\<close>).\<close>

fun truthy :: "jsval \<Rightarrow> bool" where
  "truthy JUndefined = False"
| "truthy JNull = False"
| "truthy (JBool b) = b"
| "truthy (JNum n) = (n \<noteq> 0)"
| "truthy (JDec lit) =
     list_ex (\<lambda>c. c \<in> set ''123456789'')
       (takeWhile (\<lambda>c. c \<noteq> CHR ''e'' \<and> c \<noteq> CHR ''E'') lit)"
| "truthy (JStr s) = (s \<noteq> [])"
| "truthy (JArr xs) = True"
| "truthy (JObj fs) = True"

text \<open>
  Truthiness of a value of type \<open>string | undefined\<close> and of type \<open>boolean | undefined\<close>,
  as tested by \<open>if (params.sender)\<close> or \<open>!refreshToken\<close>: \<open>undefined\<close> (and \<open>null\<close>), the
  empty string and \<open>false\<close> are falsy.
\<close>

definition truthy_str :: "string option \<Rightarrow> bool" where
  "truthy_str s = (case s of None \<Rightarrow> False | Some t \<Rightarrow> t \<noteq> [])"

definition truthy_flag :: "bool option \<Rightarrow> bool" where
  "truthy_flag b = (case b of None \<Rightarrow> False | Some v \<Rightarrow> v)"

text \<open>
  Property read \<open>v.name\<close> on a value that is neither \<open>null\<close> nor \<open>undefined\<close>, for the
  property names the code reads (\<open>content\<close>, \<open>type\<close>, \<open>text\<close>, \<open>messages\<close>): only an
  object can have them. \<open>opt_prop\<close> is the optional chain \<open>v?.name\<close>.
\<close>

fun get_prop :: "jsval \<Rightarrow> string \<Rightarrow> jsval" where
  "get_prop (JObj fs) name = (case map_of fs name of None \<Rightarrow> JUndefined | Some v \<Rightarrow> v)"
| "get_prop v name = JUndefined"

fun opt_prop :: "jsval \<Rightarrow> string \<Rightarrow> jsval" where
  "opt_prop JUndefined name = JUndefined"
| "opt_prop JNull name = JUndefined"
| "opt_prop v name = get_prop v name"

text \<open>\<open>Array.isArray(v)\<close>, and \<open>v[0]\<close> on an array (\<open>undefined\<close> when it is empty).\<close>

fun is_array :: "jsval \<Rightarrow> bool" where
  "is_array (JArr xs) = True"
| "is_array v = False"

fun first_element :: "jsval \<Rightarrow> jsval" where
  "first_element (JArr (x # xs)) = x"
| "first_element v = JUndefined"

fun array_elements :: "jsval \<Rightarrow> jsval list" where
  "array_elements (JArr xs) = xs"
| "array_elements v = []"

text \<open>\<open>Array.prototype.join(sep)\<close> on an array of strings.\<close>

fun js_join :: "string \<Rightarrow> string list \<Rightarrow> string" where
  "js_join sep [] = []"
| "js_join sep [x] = x"
| "js_join sep (x # y # ys) = x @ sep @ js_join sep (y # ys)"

subsection \<open>\<open>JSON.stringify\<close>\<close>

definition digit_char :: "nat \<Rightarrow> char" where
  "digit_char d = ''0123456789abcdef'' ! d"

fun nat_to_string :: "nat \<Rightarrow> string" where
  "nat_to_string n =
     (if n < 10 then [digit_char n] else nat_to_string (n div 10) @ [digit_char (n mod 10)])"

declare nat_to_string.simps [simp del]

text \<open>\<open>Number.prototype.toString\<close> on an integer.\<close>

definition number_to_string :: "int \<Rightarrow> string" where
  "number_to_string i =
     (if i < 0 then CHR ''-'' # nat_to_string (nat (- i)) else nat_to_string (nat i))"

text \<open>
  \<open>QuoteJSONString\<close>: the double quote and the backslash are escaped, the control
  characters below 0x20 are written as \<open>\b \t \n \f \r\<close> or \<open>\u00xx\<close>.
\<close>

definition quote_char :: "char \<Rightarrow> string" where
  "quote_char c =
     (if c = CHR 0x08 then [CHR 0x5C, CHR ''b'']
      else if c = CHR 0x09 then [CHR 0x5C, CHR ''t'']
      else if c = CHR 0x0A then [CHR 0x5C, CHR ''n'']
      else if c = CHR 0x0C then [CHR 0x5C, CHR ''f'']
      else if c = CHR 0x0D then [CHR 0x5C, CHR ''r'']
      else if c = CHR 0x22 then [CHR 0x5C, CHR 0x22]
      else if c = CHR 0x5C then [CHR 0x5C, CHR 0x5C]
      else if (of_char c :: nat) < 0x20
        then [CHR 0x5C, CHR ''u'', CHR ''0'', CHR ''0'',
              digit_char (of_char c div 16), digit_char (of_char c mod 16)]
      else [c])"

definition quote_json_string :: "string \<Rightarrow> string" where
  "quote_json_string s = CHR 0x22 # concat (map quote_char s) @ [CHR 0x22]"

text \<open>
  \<open>SerializeJSONProperty\<close> with the gap string \<open>gap\<close> at the current indentation:
  \<open>None\<close> is the result \<open>undefined\<close>. In an array an \<open>undefined\<close> element is written
  \<open>null\<close>; in an object a property whose value is \<open>undefined\<close> is left out.
\<close>

fun serialize_json :: "string \<Rightarrow> string \<Rightarrow> jsval \<Rightarrow> string option" where
  "serialize_json gap indent JUndefined = None"
| "serialize_json gap indent JNull = Some ''null''"
| "serialize_json gap indent (JBool b) = Some (if b then ''true'' else ''false'')"
| "serialize_json gap indent (JNum n) = Some (number_to_string n)"
| "serialize_json gap indent (JDec lit) = Some lit"
| "serialize_json gap indent (JStr s) = Some (quote_json_string s)"
| "serialize_json gap indent (JArr xs) =
     (let stepback = indent;
          indent = indent @ gap;
          partial = map (\<lambda>v. case serialize_json gap indent v of
                                  None \<Rightarrow> ''null'' | Some s \<Rightarrow> s) xs
      in Some (if partial = [] then ''[]''
               else if gap = [] then ''['' @ js_join '','' partial @ '']''
               else ''['' @ CHR 0x0A # indent @ js_join ('','' @ CHR 0x0A # indent) partial
                      @ CHR 0x0A # stepback @ '']''))"
| "serialize_json gap indent (JObj fs) =
     (let stepback = indent;
          indent = indent @ gap;
          partial = concat (map (\<lambda>(k, v). case serialize_json gap indent v of
                                  None \<Rightarrow> []
                                | Some s \<Rightarrow> [quote_json_string k @ '':'' @
                                              (if gap = [] then [] else '' '') @ s]) fs)
      in Some (if partial = [] then ''{}''
               else if gap = [] then ''{'' @ js_join '','' partial @ ''}''
               else ''{'' @ CHR 0x0A # indent @ js_join ('','' @ CHR 0x0A # indent) partial
                      @ CHR 0x0A # stepback @ ''}''))"

text \<open>\<open>JSON.stringify(v)\<close> and \<open>JSON.stringify(v, null, 2)\<close>.\<close>

definition JSON_stringify :: "jsval \<Rightarrow> string option" where
  "JSON_stringify v = serialize_json [] [] v"

definition JSON_stringify_2 :: "jsval \<Rightarrow> string option" where
  "JSON_stringify_2 v = serialize_json ''  '' [] v"

text \<open>A value of type \<open>string | undefined\<close> inside a template literal.\<close>

definition template_string :: "string option \<Rightarrow> string" where
  "template_string s = (case s of None \<Rightarrow> ''undefined'' | Some t \<Rightarrow> t)"

subsection \<open>\<open>JSON.parse\<close>\<close>

definition is_ws :: "char \<Rightarrow> bool" where
  "is_ws c = (c = CHR '' '' \<or> c = CHR 0x09 \<or> c = CHR 0x0A \<or> c = CHR 0x0D)"

definition skip_ws :: "string \<Rightarrow> string" where
  "skip_ws s = dropWhile is_ws s"

definition is_digit :: "char \<Rightarrow> bool" where
  "is_digit c = (c \<in> set ''0123456789'')"

definition digit_value :: "char \<Rightarrow> nat" where
  "digit_value c = of_char c - of_char CHR ''0''"

definition digits_value :: "string \<Rightarrow> nat" where
  "digits_value ds = foldl (\<lambda>n c. 10 * n + digit_value c) 0 ds"

definition hex_value :: "char \<Rightarrow> nat option" where
  "hex_value c =
     (if is_digit c then Some (digit_value c)
      else if c \<in> set ''abcdef'' then Some (of_char c - of_char CHR ''a'' + 10)
      else if c \<in> set ''ABCDEF'' then Some (of_char c - of_char CHR ''A'' + 10)
      else None)"

definition hex4_value :: "char \<Rightarrow> char \<Rightarrow> char \<Rightarrow> char \<Rightarrow> nat option" where
  "hex4_value a b c d =
     (case (hex_value a, hex_value b, hex_value c, hex_value d) of
        (Some x, Some y, Some z, Some w) \<Rightarrow> Some (((x * 16 + y) * 16 + z) * 16 + w)
      | _ \<Rightarrow> None)"

text \<open>
  The bytes of the code unit of a \<open>\uXXXX\<close> escape (a surrogate pair is not combined
  into one code point).
\<close>

definition utf8_encode :: "nat \<Rightarrow> string" where
  "utf8_encode n =
     (if n < 0x80 then [char_of n]
      else if n < 0x800 then [char_of (0xC0 + n div 64), char_of (0x80 + n mod 64)]
      else [char_of (0xE0 + n div 4096), char_of (0x80 + n div 64 mod 64),
            char_of (0x80 + n mod 64)])"

definition unescape :: "char \<Rightarrow> char option" where
  "unescape e =
     (if e = CHR 0x22 then Some (CHR 0x22)
      else if e = CHR 0x5C then Some (CHR 0x5C)
      else if e = CHR ''/'' then Some (CHR ''/'')
      else if e = CHR ''b'' then Some (CHR 0x08)
      else if e = CHR ''f'' then Some (CHR 0x0C)
      else if e = CHR ''n'' then Some (CHR 0x0A)
      else if e = CHR ''r'' then Some (CHR 0x0D)
      else if e = CHR ''t'' then Some (CHR 0x09)
      else None)"

text \<open>A string after its opening quote: the decoded string and the text after the closing quote.\<close>

fun parse_string_body :: "string \<Rightarrow> (string \<times> string) option" where
  "parse_string_body [] = None"
| "parse_string_body (c # cs) =
     (if c = CHR 0x22 then Some ([], cs)
      else if c = CHR 0x5C then
        (case cs of
           [] \<Rightarrow> None
         | e # cs' \<Rightarrow>
             if e = CHR ''u'' then
               (case cs' of
                  h1 # h2 # h3 # h4 # rest \<Rightarrow>
                    (case hex4_value h1 h2 h3 h4 of
                       None \<Rightarrow> None
                     | Some n \<Rightarrow>
                         (case parse_string_body rest of
                            None \<Rightarrow> None
                          | Some (s, r) \<Rightarrow> Some (utf8_encode n @ s, r)))
                | _ \<Rightarrow> None)
             else
               (case unescape e of
                  None \<Rightarrow> None
                | Some ch \<Rightarrow>
                    (case parse_string_body cs' of
                       None \<Rightarrow> None
                     | Some (s, r) \<Rightarrow> Some (ch # s, r))))
      else if (of_char c :: nat) < 0x20 then None
      else (case parse_string_body cs of
              None \<Rightarrow> None
            | Some (s, r) \<Rightarrow> Some (c # s, r)))"

text \<open>
  A number: an optional minus sign, an integer part without a leading zero, an optional
  fraction and an optional exponent. The parts of the literal are read off one after the
  other; a fraction or an exponent without digits makes the literal malformed (\<open>None\<close>).
\<close>

definition optional_minus :: "string \<Rightarrow> bool \<times> string" where
  "optional_minus s =
     (case s of
        [] \<Rightarrow> (False, s)
      | c # cs \<Rightarrow> if c = CHR ''-'' then (True, cs) else (False, s))"

definition optional_fraction :: "string \<Rightarrow> (string \<times> string) option" where
  "optional_fraction s =
     (case s of
        [] \<Rightarrow> Some ([], s)
      | c # cs \<Rightarrow>
          if c = CHR ''.'' then
            (if takeWhile is_digit cs = [] then None
             else Some (c # takeWhile is_digit cs, dropWhile is_digit cs))
          else Some ([], s))"

definition optional_sign :: "string \<Rightarrow> string \<times> string" where
  "optional_sign s =
     (case s of
        [] \<Rightarrow> ([], s)
      | d # ds \<Rightarrow> if d = CHR ''+'' \<or> d = CHR ''-'' then ([d], ds) else ([], s))"

definition optional_exponent :: "string \<Rightarrow> (string \<times> string) option" where
  "optional_exponent s =
     (case s of
        [] \<Rightarrow> Some ([], s)
      | c # cs \<Rightarrow>
          if c = CHR ''e'' \<or> c = CHR ''E'' then
            (case optional_sign cs of
               (sign, ds) \<Rightarrow>
                 if takeWhile is_digit ds = [] then None
                 else Some (c # sign @ takeWhile is_digit ds, dropWhile is_digit ds))
          else Some ([], s))"

definition parse_number :: "string \<Rightarrow> (jsval \<times> string) option" where
  "parse_number s =
     (case optional_minus s of
        (neg, s1) \<Rightarrow>
          (let ipart = takeWhile is_digit s1 in
           if ipart = [] \<or> (length ipart > 1 \<and> hd ipart = CHR ''0'') then None
           else
             (case optional_fraction (dropWhile is_digit s1) of
                None \<Rightarrow> None
              | Some (frac, s3) \<Rightarrow>
                  (case optional_exponent s3 of
                     None \<Rightarrow> None
                   | Some (ex, s4) \<Rightarrow>
                       if frac = [] \<and> ex = []
                       then Some (JNum (if neg then - int (digits_value ipart)
                                        else int (digits_value ipart)), s4)
                       else Some (JDec ((if neg then ''-'' else []) @ ipart @ frac @ ex),
                                  s4)))))"

definition strip_prefix :: "string \<Rightarrow> string \<Rightarrow> string option" where
  "strip_prefix p s = (if take (length p) s = p then Some (drop (length p) s) else None)"

text \<open>
  The recursive descent over values, array elements and object members. The first
  argument bounds the depth of the recursion; every call consumes a character of the text
  at least every second level, so twice the length of the text is enough. A repeated key
  of an object keeps its first position and takes the last value.
\<close>

fun parse_value :: "nat \<Rightarrow> string \<Rightarrow> (jsval \<times> string) option"
  and parse_elements :: "nat \<Rightarrow> string \<Rightarrow> (jsval list \<times> string) option"
  and parse_members :: "nat \<Rightarrow> string \<Rightarrow> ((string \<times> jsval) list \<times> string) option"
where
  "parse_value 0 s = None"
| "parse_value (Suc n) s =
     (case s of
        [] \<Rightarrow> None
      | c # cs \<Rightarrow>
          if c = CHR ''{'' then
            (case skip_ws cs of
               [] \<Rightarrow> None
             | d # ds \<Rightarrow>
                 if d = CHR ''}'' then Some (JObj [], ds)
                 else (case parse_members n (d # ds) of
                         None \<Rightarrow> None
                       | Some (ms, r) \<Rightarrow>
                           Some (JObj (foldl (\<lambda>acc (k, v). AList.update k v acc) [] ms), r)))
          else if c = CHR ''['' then
            (case skip_ws cs of
               [] \<Rightarrow> None
             | d # ds \<Rightarrow>
                 if d = CHR '']'' then Some (JArr [], ds)
                 else (case parse_elements n (d # ds) of
                         None \<Rightarrow> None
                       | Some (vs, r) \<Rightarrow> Some (JArr vs, r)))
          else if c = CHR 0x22 then
            (case parse_string_body cs of
               None \<Rightarrow> None
             | Some (str, r) \<Rightarrow> Some (JStr str, r))
          else if c = CHR ''-'' \<or> is_digit c then parse_number s
          else (case strip_prefix ''true'' s of
                  Some r \<Rightarrow> Some (JBool True, r)
                | None \<Rightarrow>
                    (case strip_prefix ''false'' s of
                       Some r \<Rightarrow> Some (JBool False, r)
                     | None \<Rightarrow>
                         (case strip_prefix ''null'' s of
                            Some r \<Rightarrow> Some (JNull, r)
                          | None \<Rightarrow> None))))"
| "parse_elements 0 s = None"
| "parse_elements (Suc n) s =
     (case parse_value n s of
        None \<Rightarrow> None
      | Some (v, r) \<Rightarrow>
          (case skip_ws r of
             [] \<Rightarrow> None
           | d # ds \<Rightarrow>
               if d = CHR '','' then
                 (case parse_elements n (skip_ws ds) of
                    None \<Rightarrow> None
                  | Some (vs, r') \<Rightarrow> Some (v # vs, r'))
               else if d = CHR '']'' then Some ([v], ds)
               else None))"
| "parse_members 0 s = None"
| "parse_members (Suc n) s =
     (case s of
        [] \<Rightarrow> None
      | q # cs \<Rightarrow>
          if q \<noteq> CHR 0x22 then None
          else
            (case parse_string_body cs of
               None \<Rightarrow> None
             | Some (key, r) \<Rightarrow>
                 (case skip_ws r of
                    [] \<Rightarrow> None
                  | col # r1 \<Rightarrow>
                      if col \<noteq> CHR '':'' then None
                      else
                        (case parse_value n (skip_ws r1) of
                           None \<Rightarrow> None
                         | Some (v, r2) \<Rightarrow>
                             (case skip_ws r2 of
                                [] \<Rightarrow> None
                              | d # ds \<Rightarrow>
                                  if d = CHR '','' then
                                    (case parse_members n (skip_ws ds) of
                                       None \<Rightarrow> None
                                     | Some (ms, r') \<Rightarrow> Some ((key, v) # ms, r'))
                                  else if d = CHR ''}'' then Some ([(key, v)], ds)
                                  else None)))))"

text \<open>\<open>JSON.parse(text)\<close>: the parsed value, or the \<open>SyntaxError\<close> it throws.\<close>

definition JSON_parse :: "string \<Rightarrow> exn + jsval" where
  "JSON_parse text =
     (case parse_value (2 * length text + 2) (skip_ws text) of
        None \<Rightarrow> Inl (Error ''SyntaxError'')
      | Some (v, r) \<Rightarrow> if skip_ws r = [] then Inr v else Inl (Error ''SyntaxError''))"

section \<open>The search cache (gmail.ts lines 7-9)\<close>

text \<open>
  A JavaScript \<open>Map\<close> is the list of its entries in insertion order: \<open>set\<close> on a key
  that is present replaces the value in place, \<open>set\<close> on a new key appends the entry, and
  \<open>keys().next().value\<close> is the first key (\<open>undefined\<close> on an empty map).
\<close>

type_synonym ('k, 'v) js_map = "('k \<times> 'v) list"

definition map_get :: "('k, 'v) js_map \<Rightarrow> 'k \<Rightarrow> 'v option" where
  "map_get m k = map_of m k"

definition map_set :: "('k, 'v) js_map \<Rightarrow> 'k \<Rightarrow> 'v \<Rightarrow> ('k, 'v) js_map" where
  "map_set m k v = AList.update k v m"

definition map_delete :: "('k, 'v) js_map \<Rightarrow> 'k \<Rightarrow> ('k, 'v) js_map" where
  "map_delete m k = AList.delete k m"

definition map_size :: "('k, 'v) js_map \<Rightarrow> nat" where
  "map_size m = length m"

definition map_first_key :: "('k, 'v) js_map \<Rightarrow> 'k option" where
  "map_first_key m = (case m of [] \<Rightarrow> None | (k, v) # rest \<Rightarrow> Some k)"

text \<open>
  \<open>const searchCache = new Map<string, { result: any; timestamp: number }>()\<close> and
  \<open>const CACHE_TTL = 5 * 60 * 1000\<close>. Times are milliseconds, as \<open>Date.now()\<close> gives them.
\<close>

record cache_entry =
  result :: jsval
  timestamp :: int

type_synonym search_cache = "(string, cache_entry) js_map"

definition CACHE_TTL :: int where
  "CACHE_TTL = 5 * 60 * 1000"

text \<open>\<open>clearGmailSearchCache\<close> (lines 627-629).\<close>

definition clearGmailSearchCache :: "search_cache \<Rightarrow> search_cache" where
  "clearGmailSearchCache searchCache = []"

section \<open>The connection URL (\<open>createSmitheryUrl\<close>, lines 14-31)\<close>

definition base64_alphabet :: string where
  "base64_alphabet = ''ABCDEFGHIJKLMNOPQRSTUVWXYZabcdefghijklmnopqrstuvwxyz0123456789+/''"

definition b64 :: "nat \<Rightarrow> char" where
  "b64 n = base64_alphabet ! n"

fun base64_bytes :: "nat list \<Rightarrow> string" where
  "base64_bytes [] = []"
| "base64_bytes [a] = [b64 (a div 4), b64 (a mod 4 * 16), CHR ''='', CHR ''='']"
| "base64_bytes [a, b] =
     [b64 (a div 4), b64 (a mod 4 * 16 + b div 16), b64 (b mod 16 * 4), CHR ''='']"
| "base64_bytes (a # b # c # rest) =
     [b64 (a div 4), b64 (a mod 4 * 16 + b div 16), b64 (b mod 16 * 4 + c div 64),
      b64 (c mod 64)] @ base64_bytes rest"

text \<open>\<open>Buffer.from(s).toString("base64")\<close>.\<close>

definition to_base64 :: "string \<Rightarrow> string" where
  "to_base64 s = base64_bytes (map of_char s)"

text \<open>
  A \<open>URL\<close>: the address without its query, and the search parameters (as
  \<open>url.searchParams.set\<close> leaves them, before percent-encoding).
\<close>

record url =
  href :: string
  searchParams :: "(string, string) js_map"

record smithery_options =
  config :: "jsval option"
  apiKey :: "string option"
  profile :: "string option"

text \<open>
  \<open>Buffer.from\<close> throws a \<open>TypeError\<close> on \<open>undefined\<close>, which is what \<open>JSON.stringify\<close>
  returns on a configuration that is not serializable.
\<close>

definition createSmitheryUrl :: "string \<Rightarrow> smithery_options \<Rightarrow> exn + url" where
  "createSmitheryUrl baseUrl options =
     (let u = \<lparr> href = baseUrl @ ''/mcp'', searchParams = [] \<rparr> in
      case (case config options of
              None \<Rightarrow> Inr u
            | Some c \<Rightarrow>
                if truthy c then
                  (case JSON_stringify c of
                     None \<Rightarrow> Inl (TypeError ''The first argument must be of type string'')
                   | Some param \<Rightarrow>
                       Inr (u\<lparr> searchParams :=
                                 map_set (searchParams u) ''config'' (to_base64 param) \<rparr>))
                else Inr u) of
        Inl e \<Rightarrow> Inl e
      | Inr u \<Rightarrow>
          (let u = (if truthy_str (apiKey options)
                    then u\<lparr> searchParams :=
                              map_set (searchParams u) ''api_key'' (the (apiKey options)) \<rparr>
                    else u);
               u = (if truthy_str (profile options)
                    then u\<lparr> searchParams :=
                              map_set (searchParams u) ''profile'' (the (profile options)) \<rparr>
                    else u)
           in Inr u))"

section \<open>The outside of the executor\<close>

text \<open>
  How a promise raced against the timeout promise settles: the operation resolves first,
  the operation rejects first, or the timer fires first (the race then rejects with the
  timeout error; the operation itself is not cancelled).
\<close>

datatype 'a settled = Resolves 'a | Rejects exn | TimerFirst

text \<open>
  What the remote side does during one attempt: how \<open>client.connect(transport)\<close> and
  \<open>client.callTool(...)\<close> settle in their races (the call resolves with an object, the
  \<open>result\<close> of line 161), whether the \<open>client.close()\<close> after a
  reply rejects (\<open>Some e\<close>) or resolves (\<open>None\<close>), and what \<open>Date.now()\<close> returns when the
  result is stored. The \<open>client.close()\<close> of the \<open>catch\<close> block has its error swallowed, so
  its outcome is not an input.
\<close>

record attempt_env =
  connect_outcome :: "unit settled"
  callTool_outcome :: "js_object settled"
  close_outcome :: "exn option"
  now_store :: int

text \<open>
  What one call of the executor finds outside: the process environment, the credential
  store behind \<open>getUserGmailToken\<close> (\<open>None\<close> is \<open>null\<close>), the clock at the cache lookup, and
  the remote's behaviour at each attempt.
\<close>

record world =
  SMITHERY_API_KEY :: "string option"
  GOOGLE_CLIENT_ID :: "string option"
  GOOGLE_CLIENT_SECRET :: "string option"
  getUserGmailToken :: "string \<Rightarrow> string option"
  now_lookup :: int
  remote :: "nat \<Rightarrow> attempt_env"

text \<open>
  The observable actions, in the order the executor performs them: the credential lookup,
  \<open>client.connect\<close> on a transport for a URL, \<open>client.callTool\<close> with a tool name and
  arguments, \<open>client.close()\<close>, and the back-off sleep with its delay.
\<close>

datatype event =
    GetToken string
  | Connect url
  | CallTool string jsval
  | Close
  | Sleep int

section \<open>The executor (\<open>executeGmailToolEnhanced\<close>, lines 100-210)\<close>

text \<open>
  The \<open>options\<close> argument, and the destructuring
  \<open>const { useCache = true, retries = 2, timeout = 45000 } = options\<close>.
\<close>

record exec_options =
  useCache :: "bool option"
  retries :: "int option"
  timeout :: "int option"

definition useCache_of :: "exec_options \<Rightarrow> bool" where
  "useCache_of options = (case useCache options of None \<Rightarrow> True | Some b \<Rightarrow> b)"

definition retries_of :: "exec_options \<Rightarrow> int" where
  "retries_of options = (case retries options of None \<Rightarrow> 2 | Some n \<Rightarrow> n)"

definition timeout_of :: "exec_options \<Rightarrow> int" where
  "timeout_of options = (case timeout options of None \<Rightarrow> 45000 | Some n \<Rightarrow> n)"

text \<open>The tools whose results are cached (lines 109 and 176).\<close>

definition is_search_tool :: "string \<Rightarrow> bool" where
  "is_search_tool toolName = (toolName = ''list_messages'' \<or> toolName = ''search_emails'')"

definition cacheKey :: "string \<Rightarrow> string \<Rightarrow> jsval \<Rightarrow> string" where
  "cacheKey userId toolName args =
     userId @ '':'' @ toolName @ '':'' @ template_string (JSON_stringify args)"

text \<open>Lines 111-115: the entry under the key, if it is younger than \<open>CACHE_TTL\<close>.\<close>

definition cache_lookup :: "search_cache \<Rightarrow> string \<Rightarrow> int \<Rightarrow> jsval option" where
  "cache_lookup searchCache key now =
     (case map_get searchCache key of
        None \<Rightarrow> None
      | Some cached \<Rightarrow> if now - timestamp cached < CACHE_TTL then Some (result cached) else None)"

text \<open>Lines 178-186: store the result, then drop the first key when more than 100 are held.\<close>

definition cache_store :: "search_cache \<Rightarrow> string \<Rightarrow> jsval \<Rightarrow> int \<Rightarrow> search_cache" where
  "cache_store searchCache key resultText now =
     (let searchCache = map_set searchCache key \<lparr> result = resultText, timestamp = now \<rparr> in
      if map_size searchCache > 100 then
        (case map_first_key searchCache of
           None \<Rightarrow> searchCache
         | Some oldestKey \<Rightarrow>
             if oldestKey \<noteq> [] then map_delete searchCache oldestKey else searchCache)
      else searchCache)"

text \<open>\<open>result.content\<close> on the object a call resolved with.\<close>

definition reply_content :: "js_object \<Rightarrow> jsval" where
  "reply_content res = get_prop (JObj res) ''content''"

text \<open>Lines 168-173: the result text of a reply, from its \<open>content\<close>.\<close>

definition extract_result_text :: "jsval \<Rightarrow> jsval" where
  "extract_result_text content =
     (if truthy content \<and> is_array content \<and>
         opt_prop (first_element content) ''type'' = JStr ''text''
      then get_prop (first_element content) ''text''
      else (case JSON_stringify_2 content of None \<Rightarrow> JUndefined | Some s \<Rightarrow> JStr s))"

text \<open>The error with which the timeout promise rejects (line 156).\<close>

definition timeout_error :: "string \<Rightarrow> int \<Rightarrow> exn" where
  "timeout_error toolName ms =
     Error (''Gmail tool '' @ toolName @ '' timed out after '' @ number_to_string ms @ ''ms'')"

text \<open>What is fixed before the loop starts: the arguments, the options and the credentials.\<close>

record exec_ctx =
  ctx_world :: world
  ctx_toolName :: string
  ctx_args :: jsval
  ctx_userId :: string
  ctx_useCache :: bool
  ctx_retries :: int
  ctx_timeout :: int
  ctx_smitheryApiKey :: string
  ctx_clientId :: string
  ctx_clientSecret :: string
  ctx_refreshToken :: string

text \<open>Lines 136-147: the URL of the Gmail server, with the credentials in its \<open>config\<close>.\<close>

definition gmail_server_url :: "string \<Rightarrow> string \<Rightarrow> string \<Rightarrow> string \<Rightarrow> exn + url" where
  "gmail_server_url smitheryApiKey clientId clientSecret refreshToken =
     createSmitheryUrl ''https://server.smithery.ai/@shinzo-labs/gmail-mcp''
       \<lparr> config = Some (JObj [(''debug'', JBool False),
                               (''CLIENT_ID'', JStr clientId),
                               (''CLIENT_SECRET'', JStr clientSecret),
                               (''REFRESH_TOKEN'', JStr refreshToken)]),
         apiKey = Some smitheryApiKey,
         profile = None \<rparr>"

text \<open>
  The result of a call or of a part of it: the value returned (\<open>Inr\<close>) or thrown (\<open>Inl\<close>),
  the events performed, and the cache afterwards.
\<close>

type_synonym outcome = "(exn + jsval) \<times> event list \<times> search_cache"

text \<open>
  The body of the outer \<open>try\<close> of one iteration (lines 136-197). An error before the
  client exists leaves nothing to close. Inside the inner \<open>try\<close>, any error (a rejected or
  timed-out connect or call, or a rejected \<open>client.close()\<close> on line 166) reaches the
  inner \<open>catch\<close>, which calls \<open>client.close()\<close> and rethrows.
\<close>

definition run_attempt :: "exec_ctx \<Rightarrow> int \<Rightarrow> search_cache \<Rightarrow> outcome" where
  "run_attempt c attempt searchCache =
     (case gmail_server_url (ctx_smitheryApiKey c) (ctx_clientId c) (ctx_clientSecret c)
             (ctx_refreshToken c) of
        Inl e \<Rightarrow> (Inl e, [], searchCache)
      | Inr serverUrl \<Rightarrow>
          (let a = remote (ctx_world c) (nat attempt);
               timeoutError = timeout_error (ctx_toolName c) (ctx_timeout c)
           in case connect_outcome a of
                Rejects e \<Rightarrow> (Inl e, [Connect serverUrl, Close], searchCache)
              | TimerFirst \<Rightarrow> (Inl timeoutError, [Connect serverUrl, Close], searchCache)
              | Resolves u \<Rightarrow>
                  (case callTool_outcome a of
                     Rejects e \<Rightarrow>
                       (Inl e,
                        [Connect serverUrl, CallTool (ctx_toolName c) (ctx_args c), Close],
                        searchCache)
                   | TimerFirst \<Rightarrow>
                       (Inl timeoutError,
                        [Connect serverUrl, CallTool (ctx_toolName c) (ctx_args c), Close],
                        searchCache)
                   | Resolves res \<Rightarrow>
                       (case close_outcome a of
                          Some e \<Rightarrow>
                            (Inl e,
                             [Connect serverUrl, CallTool (ctx_toolName c) (ctx_args c),
                              Close, Close],
                             searchCache)
                        | None \<Rightarrow>
                            (let resultText = extract_result_text (reply_content res);
                                 searchCache =
                                   (if ctx_useCache c \<and> is_search_tool (ctx_toolName c)
                                    then cache_store searchCache
                                           (cacheKey (ctx_userId c) (ctx_toolName c) (ctx_args c))
                                           resultText (now_store a)
                                    else searchCache)
                             in (Inr resultText,
                                 [Connect serverUrl, CallTool (ctx_toolName c) (ctx_args c),
                                  Close],
                                 searchCache))))))"

text \<open>
  The loop \<open>for (let attempt = 0; attempt <= retries; attempt++)\<close> with its outer
  \<open>catch\<close> (lines 198-206) and the final \<open>throw\<close> (line 209).
\<close>

function retry_loop :: "exec_ctx \<Rightarrow> int \<Rightarrow> exn option \<Rightarrow> search_cache \<Rightarrow> outcome" where
  "retry_loop c attempt lastError searchCache =
     (if attempt \<le> ctx_retries c then
        (case run_attempt c attempt searchCache of
           (Inr resultText, tr, searchCache') \<Rightarrow> (Inr resultText, tr, searchCache')
         | (Inl error, tr, searchCache') \<Rightarrow>
             (let sleeps = (if attempt < ctx_retries c
                            then [Sleep (2 ^ nat attempt * 1000)] else [])
              in case retry_loop c (attempt + 1) (Some error) searchCache' of
                   (r, tr', searchCache'') \<Rightarrow> (r, tr @ sleeps @ tr', searchCache'')))
      else
        (case lastError of
           Some e \<Rightarrow> (Inl e, [], searchCache)
         | None \<Rightarrow>
             (Inl (Error (''Failed to execute '' @ ctx_toolName c @ '' after '' @
                          number_to_string (ctx_retries c + 1) @ '' attempts'')),
              [], searchCache)))"
  by pat_completeness auto
termination
  by (relation "measure (\<lambda>(c, attempt, lastError, searchCache).
                  nat (ctx_retries c + 1 - attempt))") auto

declare retry_loop.simps [simp del]

text \<open>Lines 109-116: the cached result that answers the call, if there is one.\<close>

definition cached_result ::
  "world \<Rightarrow> search_cache \<Rightarrow> string \<Rightarrow> jsval \<Rightarrow> string \<Rightarrow> exec_options \<Rightarrow> jsval option" where
  "cached_result w searchCache toolName args userId options =
     (if useCache_of options \<and> is_search_tool toolName
      then cache_lookup searchCache (cacheKey userId toolName args) (now_lookup w)
      else None)"

text \<open>
  The values in scope when the loop starts; the configuration and the credential have
  passed their checks (lines 118-129).
\<close>

definition loop_ctx ::
  "world \<Rightarrow> string \<Rightarrow> jsval \<Rightarrow> string \<Rightarrow> exec_options \<Rightarrow> exec_ctx" where
  "loop_ctx w toolName args userId options =
     \<lparr> ctx_world = w, ctx_toolName = toolName, ctx_args = args, ctx_userId = userId,
       ctx_useCache = useCache_of options,
       ctx_retries = retries_of options,
       ctx_timeout = timeout_of options,
       ctx_smitheryApiKey = the (SMITHERY_API_KEY w),
       ctx_clientId = the (GOOGLE_CLIENT_ID w),
       ctx_clientSecret = the (GOOGLE_CLIENT_SECRET w),
       ctx_refreshToken = the (getUserGmailToken w userId) \<rparr>"

definition executeGmailToolEnhanced ::
  "world \<Rightarrow> search_cache \<Rightarrow> string \<Rightarrow> jsval \<Rightarrow> string \<Rightarrow> exec_options \<Rightarrow> outcome" where
  "executeGmailToolEnhanced w searchCache toolName args userId options =
     (case cached_result w searchCache toolName args userId options of
           Some cached \<Rightarrow> (Inr cached, [], searchCache)
         | None \<Rightarrow>
             if \<not> truthy_str (SMITHERY_API_KEY w) \<or> \<not> truthy_str (GOOGLE_CLIENT_ID w) \<or>
                \<not> truthy_str (GOOGLE_CLIENT_SECRET w)
             then (Inl (Error ''Gmail configuration missing''), [], searchCache)
             else
               (let refreshToken = getUserGmailToken w userId in
                if \<not> truthy_str refreshToken
                then (Inl (Error
                        ''Gmail not connected. Please connect your Gmail account first.''),
                      [GetToken userId], searchCache)
                else
                  (case retry_loop (loop_ctx w toolName args userId options) 0 None
                          searchCache of
                     (r, tr, searchCache') \<Rightarrow> (r, GetToken userId # tr, searchCache'))))"

section \<open>The legacy wrapper and the tools (lines 213-215 and 459-512)\<close>

definition executeGmailTool ::
  "world \<Rightarrow> search_cache \<Rightarrow> string \<Rightarrow> jsval \<Rightarrow> string \<Rightarrow> outcome" where
  "executeGmailTool w searchCache toolName args userId =
     executeGmailToolEnhanced w searchCache toolName args userId
       \<lparr> useCache = Some False, retries = Some 1, timeout = None \<rparr>"

text \<open>
  The \<open>execute\<close> functions of the tools that return the executor's result as it is. The
  arguments have passed the tool's schema before \<open>execute\<close> runs.
\<close>

definition sendMessage :: "string \<Rightarrow> world \<Rightarrow> search_cache \<Rightarrow> jsval \<Rightarrow> outcome" where
  "sendMessage userId w searchCache args =
     executeGmailTool w searchCache ''send_message'' args userId"

definition getMessage :: "string \<Rightarrow> world \<Rightarrow> search_cache \<Rightarrow> jsval \<Rightarrow> outcome" where
  "getMessage userId w searchCache args =
     executeGmailTool w searchCache ''get_message'' args userId"

definition createDraft :: "string \<Rightarrow> world \<Rightarrow> search_cache \<Rightarrow> jsval \<Rightarrow> outcome" where
  "createDraft userId w searchCache args =
     executeGmailTool w searchCache ''create_draft'' args userId"

definition listLabels :: "string \<Rightarrow> world \<Rightarrow> search_cache \<Rightarrow> jsval \<Rightarrow> outcome" where
  "listLabels userId w searchCache args =
     executeGmailTool w searchCache ''list_labels'' args userId"

definition createLabel :: "string \<Rightarrow> world \<Rightarrow> search_cache \<Rightarrow> jsval \<Rightarrow> outcome" where
  "createLabel userId w searchCache args =
     executeGmailTool w searchCache ''create_label'' args userId"

section \<open>The query builder (\<open>buildGmailQuery\<close>, lines 218-252)\<close>

text \<open>The parameter object. Every field is optional in the source: an absent one is \<open>None\<close>.\<close>

record date_range =
  range_start :: "string option"
  range_end :: "string option"

record query_params =
  naturalQuery :: "string option"
  dateRange :: "date_range option"
  sender :: "string option"
  hasAttachment :: "bool option"
  isUnread :: "bool option"

text \<open>\<open>params.dateRange?.start\<close> and \<open>params.dateRange?.end\<close>.\<close>

definition dateRange_start :: "query_params \<Rightarrow> string option" where
  "dateRange_start p = (case dateRange p of None \<Rightarrow> None | Some r \<Rightarrow> range_start r)"

definition dateRange_end :: "query_params \<Rightarrow> string option" where
  "dateRange_end p = (case dateRange p of None \<Rightarrow> None | Some r \<Rightarrow> range_end r)"

text \<open>
  \<open>queryParts\<close> starts empty, each \<open>if\<close> of the source pushes one part, and the result
  is \<open>queryParts.join(' ')\<close>.
\<close>

definition buildGmailQuery :: "query_params \<Rightarrow> string" where
  "buildGmailQuery params =
     (let queryParts = [];
          queryParts = (if truthy_str (naturalQuery params)
                        then queryParts @ [the (naturalQuery params)] else queryParts);
          queryParts = (if truthy_str (dateRange_start params)
                        then queryParts @ [''after:'' @ the (dateRange_start params)]
                        else queryParts);
          queryParts = (if truthy_str (dateRange_end params)
                        then queryParts @ [''before:'' @ the (dateRange_end params)]
                        else queryParts);
          queryParts = (if truthy_str (sender params)
                        then queryParts @ [''from:'' @ the (sender params)] else queryParts);
          queryParts = (if truthy_flag (hasAttachment params)
                        then queryParts @ [''has:attachment''] else queryParts);
          queryParts = (if truthy_flag (isUnread params)
                        then queryParts @ [''is:unread''] else queryParts)
      in js_join '' '' queryParts)"

text \<open>
  The specification's wording of the same function: the fields that are present (a
  non-empty string, a flag that is set), each written in the remote query syntax, in the
  order free text, date-after, date-before, sender, attachment, unread.
\<close>

definition field_text :: "string \<Rightarrow> string option \<Rightarrow> string list" where
  "field_text prefix s =
     (case s of None \<Rightarrow> [] | Some t \<Rightarrow> if t = [] then [] else [prefix @ t])"

definition field_flag :: "string \<Rightarrow> bool option \<Rightarrow> string list" where
  "field_flag word b = (if b = Some True then [word] else [])"

definition present_fields :: "query_params \<Rightarrow> string list" where
  "present_fields p =
     field_text [] (naturalQuery p) @
     field_text ''after:'' (dateRange_start p) @
     field_text ''before:'' (dateRange_end p) @
     field_text ''from:'' (sender p) @
     field_flag ''has:attachment'' (hasAttachment p) @
     field_flag ''is:unread'' (isUnread p)"

text \<open>The example of the specification.\<close>

definition invoice_query :: query_params where
  "invoice_query =
     \<lparr> naturalQuery = Some ''invoice'',
       dateRange = Some \<lparr> range_start = Some ''2024-01-01'', range_end = None \<rparr>,
       sender = Some ''a@b.com'',
       hasAttachment = Some True,
       isUnread = Some True \<rparr>"

section \<open>The list normalizer (\<open>formatEmailResults\<close>, lines 255-318)\<close>

text \<open>
  The \<open>forEach\<close> over the messages (lines 270-309). Its callback formats one message
  with the host's date formatting and regular expressions, and throws a \<open>TypeError\<close> on a
  message of an unexpected shape (\<open>null.payload\<close>, \<open>from.match\<close> on a number, ...). The
  callback is the parameter \<open>email_block\<close>: for the index and the message it gives the text
  appended to \<open>formattedResult\<close>, or the error thrown. An error ends the loop.
\<close>

fun forEach_email ::
  "(nat \<Rightarrow> jsval \<Rightarrow> exn + string) \<Rightarrow> nat \<Rightarrow> jsval list \<Rightarrow> string \<Rightarrow> exn + string" where
  "forEach_email email_block index [] formattedResult = Inr formattedResult"
| "forEach_email email_block index (email # rest) formattedResult =
     (case email_block index email of
        Inl e \<Rightarrow> Inl e
      | Inr block \<Rightarrow> forEach_email email_block (index + 1) rest (formattedResult @ block))"

text \<open>The two fixed texts around the list; the pictographs are their UTF-8 bytes.\<close>

definition found_header :: "nat \<Rightarrow> string" where
  "found_header n =
     [CHR 0xF0, CHR 0x9F, CHR 0x93, CHR 0xA7] @ '' Found '' @ nat_to_string n @ '' email'' @
     (if n \<noteq> 1 then ''s'' else []) @ '':'' @ [CHR 0x0A, CHR 0x0A]"

definition tip_footer :: string where
  "tip_footer =
     [CHR 0xF0, CHR 0x9F, CHR 0x92, CHR 0xA1] @
     '' **Tip**: Ask me to \"get the content of email ID [email-id]\" to read the full email.''"

text \<open>
  The function: the body of the \<open>try\<close> returns a text or throws; the \<open>catch\<close> (lines
  314-317) turns every error into the original text.
\<close>

definition formatEmailResults :: "(nat \<Rightarrow> jsval \<Rightarrow> exn + string) \<Rightarrow> string \<Rightarrow> string" where
  "formatEmailResults email_block emailData =
     (case (case JSON_parse emailData of
              Inl e \<Rightarrow> Inl e
            | Inr parsed \<Rightarrow>
                if \<not> truthy parsed \<or> \<not> is_array (get_prop parsed ''messages'')
                then Inr emailData
                else
                  (let emails = array_elements (get_prop parsed ''messages'') in
                   if length emails = 0
                   then Inr ''No emails found matching your search criteria.''
                   else
                     (case forEach_email email_block 0 emails (found_header (length emails)) of
                        Inl e \<Rightarrow> Inl e
                      | Inr formattedResult \<Rightarrow> Inr (formattedResult @ tip_footer)))) of
        Inl error \<Rightarrow> emailData
      | Inr formattedResult \<Rightarrow> formattedResult)"

section \<open>Observations\<close>

text \<open>What a trace contains: the URLs connected to, the remote calls, the closes, the sleeps.\<close>

fun connects :: "event list \<Rightarrow> url list" where
  "connects [] = []"
| "connects (Connect u # tr) = u # connects tr"
| "connects (ev # tr) = connects tr"

fun calls :: "event list \<Rightarrow> (string \<times> jsval) list" where
  "calls [] = []"
| "calls (CallTool name args # tr) = (name, args) # calls tr"
| "calls (ev # tr) = calls tr"

fun closes :: "event list \<Rightarrow> nat" where
  "closes [] = 0"
| "closes (Close # tr) = Suc (closes tr)"
| "closes (ev # tr) = closes tr"

fun sleeps :: "event list \<Rightarrow> int list" where
  "sleeps [] = []"
| "sleeps (Sleep d # tr) = d # sleeps tr"
| "sleeps (ev # tr) = sleeps tr"

fun token_lookups :: "event list \<Rightarrow> string list" where
  "token_lookups [] = []"
| "token_lookups (GetToken u # tr) = u # token_lookups tr"
| "token_lookups (ev # tr) = token_lookups tr"

text \<open>The three components of an outcome.\<close>

definition returned :: "outcome \<Rightarrow> exn + jsval" where
  "returned out = fst out"

definition trace :: "outcome \<Rightarrow> event list" where
  "trace out = fst (snd out)"

definition cache_after :: "outcome \<Rightarrow> search_cache" where
  "cache_after out = snd (snd out)"

text \<open>
  How an attempt ends, read off the remote's behaviour: the error it fails with (given the
  error of the timeout promise), or the reply it completes with. An attempt completes when
  connect and call resolve and the close after the reply resolves.
\<close>

definition attempt_error :: "exn \<Rightarrow> attempt_env \<Rightarrow> exn option" where
  "attempt_error timeoutError a =
     (case connect_outcome a of
        Rejects e \<Rightarrow> Some e
      | TimerFirst \<Rightarrow> Some timeoutError
      | Resolves u \<Rightarrow>
          (case callTool_outcome a of
             Rejects e \<Rightarrow> Some e
           | TimerFirst \<Rightarrow> Some timeoutError
           | Resolves res \<Rightarrow> close_outcome a))"

definition attempt_reply :: "attempt_env \<Rightarrow> js_object option" where
  "attempt_reply a =
     (case connect_outcome a of
        Resolves u \<Rightarrow>
          (case callTool_outcome a of
             Resolves res \<Rightarrow> (case close_outcome a of None \<Rightarrow> Some res | Some e \<Rightarrow> None)
           | Rejects e \<Rightarrow> None
           | TimerFirst \<Rightarrow> None)
      | Rejects e \<Rightarrow> None
      | TimerFirst \<Rightarrow> None)"

definition attempt_fails_with ::
  "world \<Rightarrow> string \<Rightarrow> exec_options \<Rightarrow> nat \<Rightarrow> exn \<Rightarrow> bool" where
  "attempt_fails_with w toolName options k e =
     (attempt_error (timeout_error toolName (timeout_of options)) (remote w k) = Some e)"

definition attempt_completes_with :: "world \<Rightarrow> nat \<Rightarrow> js_object \<Rightarrow> bool" where
  "attempt_completes_with w k res = (attempt_reply (remote w k) = Some res)"

text \<open>
  The caches the executor can leave behind, starting from the empty one: the keys are
  distinct, none is the empty string, and at most 100 are held.
\<close>

definition cache_ok :: "search_cache \<Rightarrow> bool" where
  "cache_ok searchCache =
     (distinct (map fst searchCache) \<and> [] \<notin> fst ` set searchCache \<and>
      map_size searchCache \<le> 100)"

text \<open>The process configuration is present; the caller has a stored credential.\<close>

definition configured :: "world \<Rightarrow> bool" where
  "configured w =
     (truthy_str (SMITHERY_API_KEY w) \<and> truthy_str (GOOGLE_CLIENT_ID w) \<and>
      truthy_str (GOOGLE_CLIENT_SECRET w))"

definition connected :: "world \<Rightarrow> string \<Rightarrow> bool" where
  "connected w userId = truthy_str (getUserGmailToken w userId)"

text \<open>
  The specification's wording of the result text: the text of the first item of the
  content list whose type is \<open>text\<close>.
\<close>

fun first_text_item :: "jsval list \<Rightarrow> jsval option" where
  "first_text_item [] = None"
| "first_text_item (item # rest) =
     (if opt_prop item ''type'' = JStr ''text'' then Some (get_prop item ''text'')
      else first_text_item rest)"

text \<open>
  The code's reading of it: the text of the first item when that item's type is \<open>text\<close>,
  and otherwise the indented JSON text of the whole content.
\<close>

definition json_dump :: "jsval \<Rightarrow> jsval" where
  "json_dump content = (case JSON_stringify_2 content of None \<Rightarrow> JUndefined | Some s \<Rightarrow> JStr s)"

fun head_text_or_dump :: "jsval \<Rightarrow> jsval" where
  "head_text_or_dump (JArr (item # rest)) =
     (if opt_prop item ''type'' = JStr ''text'' then get_prop item ''text''
      else json_dump (JArr (item # rest)))"
| "head_text_or_dump content = json_dump content"

section \<open>Scenarios\<close>

text \<open>Remote behaviours during one attempt.\<close>

definition succeeds_with :: "js_object \<Rightarrow> int \<Rightarrow> attempt_env" where
  "succeeds_with res t =
     \<lparr> connect_outcome = Resolves (), callTool_outcome = Resolves res,
       close_outcome = None, now_store = t \<rparr>"

definition call_rejects :: "string \<Rightarrow> attempt_env" where
  "call_rejects msg =
     \<lparr> connect_outcome = Resolves (), callTool_outcome = Rejects (Error msg),
       close_outcome = None, now_store = 0 \<rparr>"

definition call_times_out :: attempt_env where
  "call_times_out =
     \<lparr> connect_outcome = Resolves (), callTool_outcome = TimerFirst,
       close_outcome = None, now_store = 0 \<rparr>"

definition close_rejects :: "js_object \<Rightarrow> string \<Rightarrow> attempt_env" where
  "close_rejects res msg =
     \<lparr> connect_outcome = Resolves (), callTool_outcome = Resolves res,
       close_outcome = Some (Error msg), now_store = 0 \<rparr>"

text \<open>A reply whose content is one text item, and one with an image before the text.\<close>

definition text_reply :: "string \<Rightarrow> js_object" where
  "text_reply s =
     [(''content'', JArr [JObj [(''type'', JStr ''text''), (''text'', JStr s)]])]"

definition image_then_text :: jsval where
  "image_then_text =
     JArr [JObj [(''type'', JStr ''image''), (''data'', JStr ''aGk=''),
                 (''mimeType'', JStr ''image/png'')],
           JObj [(''type'', JStr ''text''), (''text'', JStr ''hello'')]]"

text \<open>
  A configured process in which \<open>alice\<close> has a stored credential and nobody else has,
  with a given remote behaviour and a given clock reading at the cache lookup.
\<close>

definition demo_world :: "(nat \<Rightarrow> attempt_env) \<Rightarrow> int \<Rightarrow> world" where
  "demo_world r now =
     \<lparr> SMITHERY_API_KEY = Some ''key'', GOOGLE_CLIENT_ID = Some ''id'',
       GOOGLE_CLIENT_SECRET = Some ''secret'',
       getUserGmailToken = (\<lambda>u. if u = ''alice'' then Some ''token'' else None),
       now_lookup = now, remote = r \<rparr>"

definition default_options :: exec_options where
  "default_options = \<lparr> useCache = None, retries = None, timeout = None \<rparr>"

definition demo_args :: jsval where
  "demo_args = JObj [(''q'', JStr ''invoice''), (''maxResults'', JNum 10)]"

text \<open>
  Remotes: one that answers every call with a text at a given time, one whose call is
  rejected at every attempt, one whose call times out twice before it answers, one whose
  first call times out, one whose first close after the reply is rejected, and one that
  answers with an image before the text.
\<close>

definition answers :: "string \<Rightarrow> int \<Rightarrow> nat \<Rightarrow> attempt_env" where
  "answers s t k = succeeds_with (text_reply s) t"

definition always_down :: "nat \<Rightarrow> attempt_env" where
  "always_down k =
     call_rejects (if k = 0 then ''first'' else if k = 1 then ''second'' else ''third'')"

definition third_time_lucky :: "nat \<Rightarrow> attempt_env" where
  "third_time_lucky k =
     (if k < 2 then call_times_out else succeeds_with (text_reply ''2 messages'') 7000)"

definition timeout_then_ok :: "nat \<Rightarrow> attempt_env" where
  "timeout_then_ok k =
     (if k = 0 then call_times_out else succeeds_with (text_reply ''Message sent'') 0)"

definition close_fails_once :: "nat \<Rightarrow> attempt_env" where
  "close_fails_once k =
     (if k = 0 then close_rejects (text_reply ''Message sent'') ''socket hang up''
      else succeeds_with (text_reply ''Message sent'') 0)"

definition answers_image :: "nat \<Rightarrow> attempt_env" where
  "answers_image k = succeeds_with [(''content'', image_then_text)] 0"

text \<open>The same process after \<open>alice\<close> has disconnected: no credential is stored.\<close>

definition revoked_world :: "(nat \<Rightarrow> attempt_env) \<Rightarrow> int \<Rightarrow> world" where
  "revoked_world r now =
     \<lparr> SMITHERY_API_KEY = Some ''key'', GOOGLE_CLIENT_ID = Some ''id'',
       GOOGLE_CLIENT_SECRET = Some ''secret'',
       getUserGmailToken = (\<lambda>u. None),
       now_lookup = now, remote = r \<rparr>"

text \<open>Options: two retries, none, and those of the legacy wrapper.\<close>

definition two_retries :: exec_options where
  "two_retries = \<lparr> useCache = None, retries = Some 2, timeout = None \<rparr>"

definition no_retries :: exec_options where
  "no_retries = \<lparr> useCache = None, retries = Some 0, timeout = None \<rparr>"

definition legacy_options :: exec_options where
  "legacy_options = \<lparr> useCache = Some False, retries = Some 1, timeout = None \<rparr>"

text \<open>
  Calls. A search by \<open>alice\<close> that the remote answers at time 2000, and the same search
  repeated later on the cache it left, while the remote is down, and after \<open>alice\<close> has
  disconnected. A search that fails because the remote is down, and the same search
  repeated one second later on the cache it left, when the remote answers again. A search by
  \<open>bob\<close>, who never connected. A message fetched from a remote that answers with an image
  before the text. A message sent through a remote whose close is rejected once.
\<close>

definition first_search :: outcome where
  "first_search =
     executeGmailToolEnhanced (demo_world (answers ''2 results'' 2000) 1000) []
       ''list_messages'' demo_args ''alice'' default_options"

definition second_search :: outcome where
  "second_search =
     executeGmailToolEnhanced (demo_world always_down 5000) (cache_after first_search)
       ''list_messages'' demo_args ''alice'' default_options"

definition revoked_search :: outcome where
  "revoked_search =
     executeGmailToolEnhanced (revoked_world always_down 5000) (cache_after first_search)
       ''list_messages'' demo_args ''alice'' default_options"

definition failed_search :: outcome where
  "failed_search =
     executeGmailToolEnhanced (demo_world always_down 1000) []
       ''list_messages'' demo_args ''alice'' default_options"

definition retried_search :: outcome where
  "retried_search =
     executeGmailToolEnhanced (demo_world (answers ''2 results'' 3000) 2000)
       (cache_after failed_search) ''list_messages'' demo_args ''alice'' default_options"

definition bob_search :: outcome where
  "bob_search =
     executeGmailToolEnhanced (demo_world always_down 0) []
       ''list_messages'' demo_args ''bob'' default_options"

definition image_fetch :: outcome where
  "image_fetch =
     executeGmailToolEnhanced (demo_world answers_image 0) []
       ''get_message'' (JObj [(''id'', JStr ''m1'')]) ''alice'' default_options"

definition send_args :: jsval where
  "send_args =
     JObj [(''to'', JArr [JStr ''carol@example.com'']), (''body'', JStr ''See you at 10.'')]"

definition send_close_rejected :: outcome where
  "send_close_rejected =
     executeGmailToolEnhanced (demo_world close_fails_once 0) []
       ''send_message'' send_args ''alice'' no_retries"

text \<open>A cache that holds an entry under the key a sent message would have.\<close>

definition stale_cache :: search_cache where
  "stale_cache =
     [(cacheKey ''alice'' ''send_message'' send_args,
       \<lparr> result = JStr ''Message sent'', timestamp = 0 \<rparr>)]"

definition repeated_send :: outcome where
  "repeated_send = sendMessage ''alice'' (demo_world timeout_then_ok 0) [] send_args"

definition stale_send :: outcome where
  "stale_send =
     executeGmailToolEnhanced (demo_world (answers ''Message sent'' 0) 0) stale_cache
       ''send_message'' send_args ''alice'' default_options"

text \<open>A formatting callback that throws on every message.\<close>

definition throwing_block :: "nat \<Rightarrow> jsval \<Rightarrow> exn + string" where
  "throwing_block index email = Inl (TypeError ''Cannot read properties of null'')"


section \<open>Properties of the query builder\<close>

lemma field_text_push:
  "(if truthy_str s then qs @ [prefix @ the s] else qs) = qs @ field_text prefix s"
  by (cases s) (simp_all add: truthy_str_def field_text_def)

lemma field_text_push0:
  "(if truthy_str s then [] @ [the s] else []) = field_text [] s"
  by (cases s) (simp_all add: truthy_str_def field_text_def)

lemma field_flag_push:
  "(if truthy_flag b then qs @ [w] else qs) = qs @ field_flag w b"
  by (cases b) (simp_all add: truthy_flag_def field_flag_def)

lemma buildGmailQuery_present_fields: "buildGmailQuery p = js_join '' '' (present_fields p)"
  unfolding buildGmailQuery_def present_fields_def Let_def
  apply (simp only: field_text_push field_text_push0 field_flag_push)
  apply (simp only: append_assoc)
  done


section \<open>Traces and the cache\<close>

lemma connects_append [simp]: "connects (xs @ ys) = connects xs @ connects ys"
  by (induction xs rule: connects.induct) simp_all

lemma calls_append [simp]: "calls (xs @ ys) = calls xs @ calls ys"
  by (induction xs rule: calls.induct) simp_all

lemma closes_append [simp]: "closes (xs @ ys) = closes xs + closes ys"
  by (induction xs rule: closes.induct) simp_all

lemma sleeps_append [simp]: "sleeps (xs @ ys) = sleeps xs @ sleeps ys"
  by (induction xs rule: sleeps.induct) simp_all

lemma token_lookups_append [simp]:
  "token_lookups (xs @ ys) = token_lookups xs @ token_lookups ys"
  by (induction xs rule: token_lookups.induct) simp_all

lemma cacheKey_nonempty: "cacheKey userId toolName args \<noteq> []"
  by (simp add: cacheKey_def)

lemma length_update:
  "length (AList.update k v al) = (if k \<in> fst ` set al then length al else Suc (length al))"
  by (induction al) auto

text \<open>
  A stored result is found under its key: when the store pushes the cache over 100
  entries, the key just stored is new, so it is not the first key, and the first key is
  the one dropped.
\<close>

lemma cache_store_get:
  assumes "map_size cache \<le> 100"
  shows "map_get (cache_store cache key r t) key = Some \<lparr> result = r, timestamp = t \<rparr>"
proof -
  let ?v = "\<lparr> result = r, timestamp = t \<rparr>"
  let ?c1 = "AList.update key ?v cache"
  have hit: "map_of ?c1 key = Some ?v" by (simp add: update_conv')
  show ?thesis
  proof (cases "length ?c1 > 100")
    case False
    then show ?thesis
      by (simp add: cache_store_def map_get_def map_set_def map_size_def Let_def hit)
  next
    case True
    then have new: "key \<notin> fst ` set cache"
      using assms by (auto simp: length_update map_size_def split: if_splits)
    from True assms obtain k0 v0 rest where c: "cache = (k0, v0) # rest"
      by (cases cache) (auto simp: map_size_def length_update split: if_splits)
    from new c have ne: "k0 \<noteq> key" by auto
    then have first: "map_first_key ?c1 = Some k0"
      by (simp add: c map_first_key_def)
    show ?thesis
      using True ne
      by (simp add: cache_store_def map_get_def map_set_def map_size_def map_delete_def
          Let_def first hit)
  qed
qed

text \<open>The store keeps the cache within its bound, with distinct non-empty keys.\<close>

lemma cache_store_ok:
  assumes "cache_ok cache" and "key \<noteq> []"
  shows "cache_ok (cache_store cache key r t)"
proof -
  let ?v = "\<lparr> result = r, timestamp = t \<rparr>"
  let ?c1 = "AList.update key ?v cache"
  have d1: "distinct (map fst ?c1)"
    using assms(1) by (simp add: cache_ok_def distinct_update)
  have e1: "[] \<notin> fst ` set ?c1"
    using assms by (auto simp: cache_ok_def dom_update)
  show ?thesis
  proof (cases "length ?c1 > 100")
    case False
    then show ?thesis
      using d1 e1
      by (simp add: cache_store_def cache_ok_def map_set_def map_size_def Let_def)
  next
    case True
    then obtain k0 v0 rest where c1: "?c1 = (k0, v0) # rest"
      by (cases ?c1) auto
    have k0: "k0 \<noteq> []" using e1 c1 by force
    have len: "length ?c1 \<le> 101"
      using assms(1) by (simp add: cache_ok_def map_size_def length_update)
    have "k0 \<notin> fst ` set rest" using d1 c1 by force
    then have del: "AList.delete k0 rest = rest"
      by (simp add: delete_id)
    have "cache_store cache key r t = rest"
      using True k0 by (simp add: cache_store_def map_set_def map_size_def map_delete_def
          map_first_key_def Let_def c1 del)
    moreover have "distinct (map fst rest)" "[] \<notin> fst ` set rest" "length rest \<le> 100"
      using d1 e1 len c1 by auto
    ultimately show ?thesis by (simp add: cache_ok_def map_size_def)
  qed
qed

lemma cache_ok_empty: "cache_ok []" "cache_ok (clearGmailSearchCache cache)"
  by (simp_all add: cache_ok_def map_size_def clearGmailSearchCache_def)

lemma cache_lookup_entry:
  "cache_lookup cache key now = Some v \<longleftrightarrow>
     (\<exists>entry. map_get cache key = Some entry \<and> result entry = v \<and>
        now - timestamp entry < CACHE_TTL)"
  by (auto simp: cache_lookup_def split: option.splits)

lemma cached_result_empty [simp]: "cached_result w [] toolName args userId options = None"
  by (simp add: cached_result_def cache_lookup_def map_get_def)

lemma is_search_tool_simps [simp]:
  "is_search_tool ''list_messages''" "is_search_tool ''search_emails''"
  "\<not> is_search_tool ''send_message''" "\<not> is_search_tool ''get_message''"
  by (simp_all add: is_search_tool_def)

section \<open>One attempt\<close>

lemma stringify_object: "\<exists>param. JSON_stringify (JObj fs) = Some param"
  by (simp add: JSON_stringify_def Let_def)

lemma gmail_server_url_ok:
  assumes "k \<noteq> []"
  shows "\<exists>u. gmail_server_url k i s t = Inr u"
proof -
  obtain param where "JSON_stringify (JObj [(''debug'', JBool False), (''CLIENT_ID'', JStr i),
      (''CLIENT_SECRET'', JStr s), (''REFRESH_TOKEN'', JStr t)]) = Some param"
    using stringify_object by blast
  then show ?thesis
    using assms by (simp add: gmail_server_url_def createSmitheryUrl_def truthy_str_def Let_def)
qed

lemma attempt_error_no_reply: "attempt_error te a = Some e \<Longrightarrow> attempt_reply a = None"
  by (auto simp: attempt_error_def attempt_reply_def split: settled.splits option.splits)

lemma run_attempt_failure:
  assumes "gmail_server_url (ctx_smitheryApiKey c) (ctx_clientId c) (ctx_clientSecret c)
             (ctx_refreshToken c) = Inr u"
    and "attempt_error (timeout_error (ctx_toolName c) (ctx_timeout c))
           (remote (ctx_world c) (nat k)) = Some e"
    and "attempt_reply (remote (ctx_world c) (nat k)) = None"
  shows "\<exists>tr. run_attempt c k cache = (Inl e, tr, cache) \<and> connects tr = [u] \<and> sleeps tr = []
           \<and> token_lookups tr = []"
  using assms
  by (auto simp: run_attempt_def attempt_error_def attempt_reply_def Let_def
      split: settled.splits option.splits)

lemma run_attempt_failure_after_connect:
  assumes "gmail_server_url (ctx_smitheryApiKey c) (ctx_clientId c) (ctx_clientSecret c)
             (ctx_refreshToken c) = Inr u"
    and "connect_outcome (remote (ctx_world c) (nat k)) = Resolves ()"
    and "attempt_error (timeout_error (ctx_toolName c) (ctx_timeout c))
           (remote (ctx_world c) (nat k)) = Some e"
  shows "\<exists>tr. run_attempt c k cache = (Inl e, tr, cache) \<and>
           calls tr = [(ctx_toolName c, ctx_args c)]"
  using assms
  by (auto simp: run_attempt_def attempt_error_def Let_def
      split: settled.splits option.splits)

lemma run_attempt_close_rejected:
  assumes "gmail_server_url (ctx_smitheryApiKey c) (ctx_clientId c) (ctx_clientSecret c)
             (ctx_refreshToken c) = Inr u"
    and "connect_outcome (remote (ctx_world c) (nat k)) = Resolves ()"
    and "callTool_outcome (remote (ctx_world c) (nat k)) = Resolves res"
    and "close_outcome (remote (ctx_world c) (nat k)) = Some e"
  shows "run_attempt c k cache =
           (Inl e, [Connect u, CallTool (ctx_toolName c) (ctx_args c), Close, Close], cache)"
  using assms by (simp add: run_attempt_def Let_def)

lemma run_attempt_success:
  assumes "gmail_server_url (ctx_smitheryApiKey c) (ctx_clientId c) (ctx_clientSecret c)
             (ctx_refreshToken c) = Inr u"
    and "attempt_reply (remote (ctx_world c) (nat k)) = Some res"
  shows "run_attempt c k cache =
           (Inr (extract_result_text (reply_content res)),
            [Connect u, CallTool (ctx_toolName c) (ctx_args c), Close],
            if ctx_useCache c \<and> is_search_tool (ctx_toolName c)
            then cache_store cache (cacheKey (ctx_userId c) (ctx_toolName c) (ctx_args c))
                   (extract_result_text (reply_content res))
                   (now_store (remote (ctx_world c) (nat k)))
            else cache)"
  using assms
  by (auto simp: run_attempt_def attempt_reply_def Let_def
      split: settled.splits option.splits)

lemma run_attempt_failed_cache:
  "run_attempt c k cache = (Inl e, tr, cache') \<Longrightarrow> cache' = cache"
  by (auto simp: run_attempt_def Let_def split: sum.splits settled.splits option.splits)

lemma run_attempt_completed:
  assumes "run_attempt c k cache = (Inr v, tr, cache')"
  shows "\<exists>res. attempt_reply (remote (ctx_world c) (nat k)) = Some res \<and>
           v = extract_result_text (reply_content res) \<and>
           calls tr = [(ctx_toolName c, ctx_args c)] \<and>
           cache' = (if ctx_useCache c \<and> is_search_tool (ctx_toolName c)
                     then cache_store cache
                            (cacheKey (ctx_userId c) (ctx_toolName c) (ctx_args c))
                            v (now_store (remote (ctx_world c) (nat k)))
                     else cache)"
  using assms
  by (auto simp: run_attempt_def attempt_reply_def Let_def
      split: sum.splits settled.splits option.splits)

lemma run_attempt_cache_free:
  assumes "\<not> (ctx_useCache c \<and> is_search_tool (ctx_toolName c))"
  shows "run_attempt c k cache =
           (fst (run_attempt c k []), fst (snd (run_attempt c k [])), cache)"
  using assms
  by (auto simp: run_attempt_def Let_def split: sum.splits settled.splits option.splits)

lemma run_attempt_trace:
  assumes "run_attempt c k cache = (r, tr, cache')"
  shows "token_lookups tr = [] \<and> sleeps tr = [] \<and>
         (\<forall>u. Connect u \<in> set tr \<longrightarrow>
            gmail_server_url (ctx_smitheryApiKey c) (ctx_clientId c) (ctx_clientSecret c)
              (ctx_refreshToken c) = Inr u)"
  using assms
  by (auto simp: run_attempt_def Let_def split: sum.splits settled.splits option.splits)

text \<open>Unless the close after a reply is rejected, an attempt closes once for its one connect.\<close>

lemma run_attempt_closes:
  assumes "run_attempt c k cache = (r, tr, cache')"
    and "close_outcome (remote (ctx_world c) (nat k)) = None"
  shows "closes tr = length (connects tr)"
  using assms
  by (auto simp: run_attempt_def Let_def split: sum.splits settled.splits option.splits)

text \<open>
  An attempt begins with its connect; after it come only the remote call and closes. An
  attempt whose remote gives no reply that is kept fails, and leaves the cache as it is.
\<close>

lemma run_attempt_shape:
  assumes "gmail_server_url (ctx_smitheryApiKey c) (ctx_clientId c) (ctx_clientSecret c)
             (ctx_refreshToken c) = Inr u"
    and "run_attempt c k cache = (r, tr, cache')"
  shows "\<exists>rest. tr = Connect u # rest \<and>
           set rest \<subseteq> {CallTool (ctx_toolName c) (ctx_args c), Close}"
  using assms
  by (auto simp: run_attempt_def Let_def split: settled.splits option.splits)

lemma run_attempt_no_reply:
  assumes "gmail_server_url (ctx_smitheryApiKey c) (ctx_clientId c) (ctx_clientSecret c)
             (ctx_refreshToken c) = Inr u"
    and "attempt_reply (remote (ctx_world c) (nat k)) = None"
  shows "\<exists>e tr. run_attempt c k cache = (Inl e, tr, cache)"
  using assms
  by (auto simp: run_attempt_def attempt_reply_def Let_def
      split: settled.splits option.splits)
section \<open>The loop\<close>

lemma retry_loop_failed_attempt:
  assumes "k \<le> ctx_retries c" and "run_attempt c k cache = (Inl e, tr, cache')"
  shows "retry_loop c k lastError cache =
           (case retry_loop c (k + 1) (Some e) cache' of
              (r, tr', cache'') \<Rightarrow>
                (r, tr @ (if k < ctx_retries c then [Sleep (2 ^ nat k * 1000)] else []) @ tr',
                 cache''))"
  using assms by (subst retry_loop.simps) (simp add: Let_def)

lemma retry_loop_completed_attempt:
  assumes "k \<le> ctx_retries c" and "run_attempt c k cache = (Inr r, tr, cache')"
  shows "retry_loop c k lastError cache = (Inr r, tr, cache')"
  using assms by (subst retry_loop.simps) simp

lemma retry_loop_exhausted:
  assumes "\<not> k \<le> ctx_retries c"
  shows "retry_loop c k (Some e) cache = (Inl e, [], cache)"
  using assms by (subst retry_loop.simps) simp

text \<open>
  A loop that returns a result has completed an attempt: the result is the text of that
  attempt's reply, the remote was called, and the cache is the one it found, with the
  result stored if the tool is a search tool and the cache is in use.
\<close>

lemma retry_loop_completed:
  "retry_loop c k lastError cache = (Inr v, tr, cache') \<Longrightarrow>
     \<exists>j res. attempt_reply (remote (ctx_world c) j) = Some res \<and>
       v = extract_result_text (reply_content res) \<and>
       (ctx_toolName c, ctx_args c) \<in> set (calls tr) \<and>
       cache' = (if ctx_useCache c \<and> is_search_tool (ctx_toolName c)
                 then cache_store cache (cacheKey (ctx_userId c) (ctx_toolName c) (ctx_args c))
                        v (now_store (remote (ctx_world c) j))
                 else cache)"
proof (induction c k lastError cache arbitrary: tr rule: retry_loop.induct)
  case (1 c attempt lastError searchCache)
  show ?case
  proof (cases "attempt \<le> ctx_retries c")
    case False
    with "1.prems" show ?thesis
      by (subst (asm) retry_loop.simps) (simp split: option.splits)
  next
    case True
    obtain r0 tr0 c0 where ra: "run_attempt c attempt searchCache = (r0, tr0, c0)"
      by (cases "run_attempt c attempt searchCache") auto
    show ?thesis
    proof (cases r0)
      case (Inr v0)
      with ra True "1.prems" have "v0 = v" "tr0 = tr" "c0 = cache'"
        by (simp_all add: retry_loop_completed_attempt)
      with ra Inr run_attempt_completed [of c attempt searchCache v tr cache']
      obtain res where "attempt_reply (remote (ctx_world c) (nat attempt)) = Some res"
        "v = extract_result_text (reply_content res)"
        "calls tr = [(ctx_toolName c, ctx_args c)]"
        "cache' = (if ctx_useCache c \<and> is_search_tool (ctx_toolName c)
                   then cache_store searchCache
                          (cacheKey (ctx_userId c) (ctx_toolName c) (ctx_args c))
                          v (now_store (remote (ctx_world c) (nat attempt)))
                   else searchCache)"
        by auto
      then show ?thesis
        by (intro exI [of _ "nat attempt"] exI [of _ res]) simp
    next
      case (Inl e)
      with ra have c0: "c0 = searchCache" using run_attempt_failed_cache by blast
      obtain r1 tr1 c1 where
        rl: "retry_loop c (attempt + 1) (Some e) searchCache = (r1, tr1, c1)"
        by (cases "retry_loop c (attempt + 1) (Some e) searchCache") auto
      from "1.prems" ra Inl c0 True rl
      have eq: "r1 = Inr v" "c1 = cache'"
        and tr: "tr = tr0 @ (if attempt < ctx_retries c
                              then [Sleep (2 ^ nat attempt * 1000)] else []) @ tr1"
        by (simp_all add: retry_loop_failed_attempt)
      from "1.IH" [OF True ra [symmetric, unfolded Inl c0] refl refl refl, of tr1] rl eq
      obtain j res where "attempt_reply (remote (ctx_world c) j) = Some res"
        "v = extract_result_text (reply_content res)"
        "(ctx_toolName c, ctx_args c) \<in> set (calls tr1)"
        "cache' = (if ctx_useCache c \<and> is_search_tool (ctx_toolName c)
                   then cache_store searchCache
                          (cacheKey (ctx_userId c) (ctx_toolName c) (ctx_args c))
                          v (now_store (remote (ctx_world c) j))
                   else searchCache)"
        by auto
      then show ?thesis using tr by auto
    qed
  qed
qed

text \<open>A loop that throws leaves the cache as it found it.\<close>

lemma retry_loop_failed_cache:
  "retry_loop c k lastError cache = (Inl e, tr, cache') \<Longrightarrow> cache' = cache"
proof (induction c k lastError cache arbitrary: tr rule: retry_loop.induct)
  case (1 c attempt lastError searchCache)
  show ?case
  proof (cases "attempt \<le> ctx_retries c")
    case False
    with "1.prems" show ?thesis
      by (subst (asm) retry_loop.simps) (simp split: option.splits)
  next
    case True
    obtain r0 tr0 c0 where ra: "run_attempt c attempt searchCache = (r0, tr0, c0)"
      by (cases "run_attempt c attempt searchCache") auto
    show ?thesis
    proof (cases r0)
      case (Inr v0)
      with ra True "1.prems" show ?thesis
        by (simp add: retry_loop_completed_attempt)
    next
      case (Inl e0)
      with ra have c0: "c0 = searchCache" using run_attempt_failed_cache by blast
      obtain r1 tr1 c1 where
        rl: "retry_loop c (attempt + 1) (Some e0) searchCache = (r1, tr1, c1)"
        by (cases "retry_loop c (attempt + 1) (Some e0) searchCache") auto
      from "1.prems" ra Inl c0 True rl have eq: "r1 = Inl e" "c1 = cache'"
        by (simp_all add: retry_loop_failed_attempt)
      from "1.IH" [OF True ra [symmetric, unfolded Inl c0] refl refl refl, of tr1] rl eq
      show ?thesis by simp
    qed
  qed
qed

text \<open>
  When the tool is not a search tool or the cache is not in use, the loop neither reads
  nor writes the cache: result and trace are the same on every cache.
\<close>

lemma retry_loop_cache_free:
  assumes "\<not> (ctx_useCache c \<and> is_search_tool (ctx_toolName c))"
  shows "\<exists>r tr. \<forall>cache. retry_loop c k lastError cache = (r, tr, cache)"
proof (induction "nat (ctx_retries c + 1 - k)" arbitrary: k lastError)
  case 0
  then have "\<not> k \<le> ctx_retries c" by simp
  then have "\<And>cache. retry_loop c k lastError cache =
      ((case lastError of
          Some e \<Rightarrow> Inl e
        | None \<Rightarrow>
            Inl (Error (''Failed to execute '' @ ctx_toolName c @ '' after '' @
                        number_to_string (ctx_retries c + 1) @ '' attempts''))),
       [], cache)"
    by (subst retry_loop.simps) (simp split: option.splits)
  then show ?case by blast
next
  case (Suc n)
  then have le: "k \<le> ctx_retries c" by simp
  define r0 where "r0 = fst (run_attempt c k [])"
  define tr0 where "tr0 = fst (snd (run_attempt c k []))"
  have ra: "\<And>cache. run_attempt c k cache = (r0, tr0, cache)"
    unfolding r0_def tr0_def by (rule run_attempt_cache_free [OF assms])
  show ?case
  proof (cases r0)
    case (Inr v)
    then have "\<And>cache. retry_loop c k lastError cache = (Inr v, tr0, cache)"
      using retry_loop_completed_attempt [OF le] ra by simp
    then show ?thesis by blast
  next
    case (Inl e)
    from Suc(2) have "n = nat (ctx_retries c + 1 - (k + 1))" by simp
    from Suc(1) [OF this, of "Some e"]
    obtain r tr where nxt: "\<And>cache. retry_loop c (k + 1) (Some e) cache = (r, tr, cache)"
      by blast
    have "\<And>cache. retry_loop c k lastError cache =
        (r, tr0 @ (if k < ctx_retries c then [Sleep (2 ^ nat k * 1000)] else []) @ tr, cache)"
      using retry_loop_failed_attempt [OF le, of _ e tr0] ra Inl nxt by simp
    then show ?thesis by blast
  qed
qed

text \<open>
  The loop looks no credential up, and every URL it connects to is the Gmail server's URL
  built from the credentials the loop was started with. Unless a close after a reply is
  rejected, it closes as often as it connects.
\<close>

lemma retry_loop_trace:
  "retry_loop c k lastError cache = (r, tr, cache') \<Longrightarrow>
     token_lookups tr = [] \<and>
     (\<forall>u. Connect u \<in> set tr \<longrightarrow>
        gmail_server_url (ctx_smitheryApiKey c) (ctx_clientId c) (ctx_clientSecret c)
          (ctx_refreshToken c) = Inr u)"
proof (induction c k lastError cache arbitrary: r tr cache' rule: retry_loop.induct)
  case (1 c attempt lastError searchCache)
  show ?case
  proof (cases "attempt \<le> ctx_retries c")
    case False
    with "1.prems" show ?thesis
      by (subst (asm) retry_loop.simps) (auto split: option.splits)
  next
    case True
    obtain r0 tr0 c0 where ra: "run_attempt c attempt searchCache = (r0, tr0, c0)"
      by (cases "run_attempt c attempt searchCache") auto
    note t0 = run_attempt_trace [OF ra]
    show ?thesis
    proof (cases r0)
      case (Inr v0)
      with ra True "1.prems" have "tr0 = tr"
        by (simp add: retry_loop_completed_attempt)
      with t0 show ?thesis by simp
    next
      case (Inl e)
      obtain r1 tr1 c1 where rl: "retry_loop c (attempt + 1) (Some e) c0 = (r1, tr1, c1)"
        by (cases "retry_loop c (attempt + 1) (Some e) c0") auto
      from "1.prems" ra Inl True rl
      have tr: "tr = tr0 @ (if attempt < ctx_retries c
                            then [Sleep (2 ^ nat attempt * 1000)] else []) @ tr1"
        by (simp add: retry_loop_failed_attempt)
      from "1.IH" [OF True ra [symmetric, unfolded Inl] refl refl refl rl]
      show ?thesis using t0 tr by auto
    qed
  qed
qed

lemma retry_loop_closes:
  assumes "\<forall>j. close_outcome (remote (ctx_world c) j) = None"
  shows "retry_loop c k lastError cache = (r, tr, cache') \<Longrightarrow>
           closes tr = length (connects tr)"
  using assms
proof (induction c k lastError cache arbitrary: r tr cache' rule: retry_loop.induct)
  case (1 c attempt lastError searchCache)
  show ?case
  proof (cases "attempt \<le> ctx_retries c")
    case False
    with "1.prems" show ?thesis
      by (subst (asm) retry_loop.simps) (auto split: option.splits)
  next
    case True
    obtain r0 tr0 c0 where ra: "run_attempt c attempt searchCache = (r0, tr0, c0)"
      by (cases "run_attempt c attempt searchCache") auto
    have t0: "closes tr0 = length (connects tr0)"
      using run_attempt_closes [OF ra] "1.prems"(2) by simp
    show ?thesis
    proof (cases r0)
      case (Inr v0)
      with ra True "1.prems" have "tr0 = tr"
        by (simp add: retry_loop_completed_attempt)
      with t0 show ?thesis by simp
    next
      case (Inl e)
      obtain r1 tr1 c1 where rl: "retry_loop c (attempt + 1) (Some e) c0 = (r1, tr1, c1)"
        by (cases "retry_loop c (attempt + 1) (Some e) c0") auto
      from "1.prems" ra Inl True rl
      have tr: "tr = tr0 @ (if attempt < ctx_retries c
                            then [Sleep (2 ^ nat attempt * 1000)] else []) @ tr1"
        by (simp add: retry_loop_failed_attempt)
      from "1.IH" [OF True ra [symmetric, unfolded Inl] refl refl refl rl "1.prems"(2)]
      show ?thesis using t0 tr by auto
    qed
  qed
qed

text \<open>
  The sleeps of a loop started at attempt \<open>k\<close> are the delays \<open>1000 * 2 ^ j\<close> for the
  attempts \<open>j = k, k + 1, ...\<close> that failed with a retry left: each delay is twice the one
  before.
\<close>

lemma run_attempt_sleeps: "run_attempt c k cache = (r, tr, cache') \<Longrightarrow> sleeps tr = []"
  using run_attempt_trace by blast

lemma retry_loop_sleeps:
  assumes "0 \<le> k"
  shows "retry_loop c k lastError cache = (r, tr, cache') \<Longrightarrow>
           \<exists>n. sleeps tr = map (\<lambda>j. 2 ^ j * 1000) [nat k..<nat k + n] \<and>
               int (nat k + n) \<le> max k (ctx_retries c)"
  using assms
proof (induction c k lastError cache arbitrary: r tr cache' rule: retry_loop.induct)
  case (1 c attempt lastError searchCache)
  show ?case
  proof (cases "attempt \<le> ctx_retries c")
    case False
    with "1.prems" have "tr = []"
      by (subst (asm) retry_loop.simps) (auto split: option.splits)
    then show ?thesis using "1.prems"(2) by (intro exI [of _ 0]) simp
  next
    case True
    obtain r0 tr0 c0 where ra: "run_attempt c attempt searchCache = (r0, tr0, c0)"
      by (cases "run_attempt c attempt searchCache") auto
    have s0: "sleeps tr0 = []" using run_attempt_sleeps [OF ra] .
    show ?thesis
    proof (cases r0)
      case (Inr v0)
      with ra True "1.prems" have "tr0 = tr"
        by (simp add: retry_loop_completed_attempt)
      with s0 True "1.prems"(2) show ?thesis by (intro exI [of _ 0]) simp
    next
      case (Inl e)
      obtain r1 tr1 c1 where rl: "retry_loop c (attempt + 1) (Some e) c0 = (r1, tr1, c1)"
        by (cases "retry_loop c (attempt + 1) (Some e) c0") auto
      from "1.prems" ra Inl True rl
      have tr: "tr = tr0 @ (if attempt < ctx_retries c
                            then [Sleep (2 ^ nat attempt * 1000)] else []) @ tr1"
        by (simp add: retry_loop_failed_attempt)
      have "0 \<le> attempt + 1" using "1.prems"(2) by simp
      from "1.IH" [OF True ra [symmetric, unfolded Inl] refl refl refl rl this]
      obtain n where n: "sleeps tr1 = map (\<lambda>j. 2 ^ j * 1000) [nat (attempt + 1)..<nat (attempt + 1) + n]"
        "int (nat (attempt + 1) + n) \<le> max (attempt + 1) (ctx_retries c)"
        by blast
      have suc: "nat (attempt + 1) = Suc (nat attempt)" using "1.prems"(2) by simp
      show ?thesis
      proof (cases "attempt < ctx_retries c")
        case lt: True
        have "sleeps tr = map (\<lambda>j. 2 ^ j * 1000) [nat attempt..<nat attempt + Suc n]"
          using tr s0 n(1) lt suc by (simp add: upt_rec [of "nat attempt"])
        moreover have "int (nat attempt + Suc n) \<le> max attempt (ctx_retries c)"
          using n(2) suc lt by simp
        ultimately show ?thesis by blast
      next
        case ge: False
        with True have eq: "attempt = ctx_retries c" by simp
        have "tr1 = []"
          using rl eq by (subst (asm) retry_loop.simps) (auto split: option.splits)
        then show ?thesis using tr s0 ge "1.prems"(2) by (intro exI [of _ 0]) simp
      qed
    qed
  qed
qed

text \<open>
  The loop returns at the first attempt that completes: when the attempts from \<open>a\<close> up to
  \<open>k\<close> fail, \<open>k\<close> is within the retries and attempt \<open>k\<close> completes, the loop started
  at \<open>a\<close> returns the result text of the reply of attempt \<open>k\<close>.
\<close>

lemma retry_loop_first_reply:
  assumes u: "gmail_server_url (ctx_smitheryApiKey c) (ctx_clientId c) (ctx_clientSecret c)
             (ctx_refreshToken c) = Inr u"
    and le: "int k \<le> ctx_retries c"
    and rep: "attempt_reply (remote (ctx_world c) k) = Some res"
  shows "a \<le> k \<Longrightarrow> \<forall>j. a \<le> j \<and> j < k \<longrightarrow> attempt_reply (remote (ctx_world c) j) = None \<Longrightarrow>
           \<exists>tr cache'. retry_loop c (int a) lastError cache =
             (Inr (extract_result_text (reply_content res)), tr, cache')"
proof (induction "k - a" arbitrary: a lastError)
  case 0
  then have ak: "a = k" by simp
  have "attempt_reply (remote (ctx_world c) (nat (int k))) = Some res" using rep by simp
  from run_attempt_success [OF u this, of cache]
  show ?case
    using retry_loop_completed_attempt [OF le, of cache _ _ _ lastError] ak by blast
next
  case (Suc n)
  then have lt: "a < k" by simp
  then have none: "attempt_reply (remote (ctx_world c) (nat (int a))) = None"
    using Suc.prems(2) by simp
  from run_attempt_no_reply [OF u this, of cache]
  obtain e tr0 where ra: "run_attempt c (int a) cache = (Inl e, tr0, cache)" by blast
  have le_a: "int a \<le> ctx_retries c" using lt le by simp
  have "n = k - Suc a" "Suc a \<le> k"
    "\<forall>j. Suc a \<le> j \<and> j < k \<longrightarrow> attempt_reply (remote (ctx_world c) j) = None"
    using Suc.hyps(2) lt Suc.prems(2) by auto
  from Suc.hyps(1) [OF this, of "Some e"]
  obtain tr1 cache' where "retry_loop c (int (Suc a)) (Some e) cache =
      (Inr (extract_result_text (reply_content res)), tr1, cache')"
    by blast
  then have "retry_loop c (int a + 1) (Some e) cache =
      (Inr (extract_result_text (reply_content res)), tr1, cache')"
    by (simp add: add.commute)
  then show ?case
    using retry_loop_failed_attempt [OF le_a ra, of lastError] by simp
qed

text \<open>
  Conversely, a loop that returns a result has it from the first attempt that completed,
  and that attempt is within the retries.
\<close>

lemma retry_loop_returns_first:
  assumes u: "gmail_server_url (ctx_smitheryApiKey c) (ctx_clientId c) (ctx_clientSecret c)
             (ctx_refreshToken c) = Inr u"
  shows "retry_loop c a lastError cache = (Inr v, tr, cache') \<Longrightarrow> 0 \<le> a \<Longrightarrow>
     \<exists>k res. a \<le> int k \<and> int k \<le> ctx_retries c \<and>
       (\<forall>j. a \<le> int j \<and> j < k \<longrightarrow> attempt_reply (remote (ctx_world c) j) = None) \<and>
       attempt_reply (remote (ctx_world c) k) = Some res \<and>
       v = extract_result_text (reply_content res)"
  using u
proof (induction c a lastError cache arbitrary: tr rule: retry_loop.induct)
  case (1 c attempt lastError searchCache)
  note url = "1.prems"(3)
  show ?case
  proof (cases "attempt \<le> ctx_retries c")
    case False
    with "1.prems"(1) show ?thesis
      by (subst (asm) retry_loop.simps) (simp split: option.splits)
  next
    case True
    obtain r0 tr0 c0 where ra: "run_attempt c attempt searchCache = (r0, tr0, c0)"
      by (cases "run_attempt c attempt searchCache") auto
    show ?thesis
    proof (cases r0)
      case (Inr v0)
      with ra True "1.prems"(1) have "v0 = v"
        by (simp_all add: retry_loop_completed_attempt)
      with ra Inr run_attempt_completed [of c attempt searchCache v tr0 c0]
      obtain res where "attempt_reply (remote (ctx_world c) (nat attempt)) = Some res"
        "v = extract_result_text (reply_content res)"
        by auto
      then show ?thesis
        using True "1.prems"(2) by (intro exI [of _ "nat attempt"] exI [of _ res]) auto
    next
      case (Inl e)
      with ra have c0: "c0 = searchCache" using run_attempt_failed_cache by blast
      have none: "attempt_reply (remote (ctx_world c) (nat attempt)) = None"
      proof (cases "attempt_reply (remote (ctx_world c) (nat attempt))")
        case (Some res)
        from run_attempt_success [OF url Some, of searchCache] ra Inl show ?thesis by simp
      qed simp
      obtain r1 tr1 c1 where
        rl: "retry_loop c (attempt + 1) (Some e) searchCache = (r1, tr1, c1)"
        by (cases "retry_loop c (attempt + 1) (Some e) searchCache") auto
      from "1.prems"(1) ra Inl c0 True rl
      have eq: "r1 = Inr v" "c1 = cache'"
        by (simp_all add: retry_loop_failed_attempt)
      have "0 \<le> attempt + 1" using "1.prems"(2) by simp
      from "1.IH" [OF True ra [symmetric, unfolded Inl c0] refl refl refl _ this url, of tr1]
        rl eq
      obtain k res where k: "attempt + 1 \<le> int k" "int k \<le> ctx_retries c"
        "\<forall>j. attempt + 1 \<le> int j \<and> j < k \<longrightarrow> attempt_reply (remote (ctx_world c) j) = None"
        "attempt_reply (remote (ctx_world c) k) = Some res"
        "v = extract_result_text (reply_content res)"
        by auto
      have "\<forall>j. attempt \<le> int j \<and> j < k \<longrightarrow> attempt_reply (remote (ctx_world c) j) = None"
      proof (intro allI impI)
        fix j assume j: "attempt \<le> int j \<and> j < k"
        show "attempt_reply (remote (ctx_world c) j) = None"
        proof (cases "attempt = int j")
          case True
          then show ?thesis using none by simp
        next
          case False
          with j k(3) show ?thesis by simp
        qed
      qed
      with k show ?thesis
        by (intro exI [of _ k] exI [of _ res]) simp
    qed
  qed
qed
section \<open>The executor\<close>

lemma execute_cache_hit:
  assumes "cached_result w cache toolName args userId options = Some v"
  shows "executeGmailToolEnhanced w cache toolName args userId options = (Inr v, [], cache)"
  using assms by (simp add: executeGmailToolEnhanced_def)

lemma execute_not_configured:
  assumes "cached_result w cache toolName args userId options = None" and "\<not> configured w"
  shows "executeGmailToolEnhanced w cache toolName args userId options =
           (Inl (Error ''Gmail configuration missing''), [], cache)"
  using assms by (auto simp: executeGmailToolEnhanced_def configured_def)

lemma execute_not_connected:
  assumes "cached_result w cache toolName args userId options = None"
    and "configured w" and "\<not> connected w userId"
  shows "executeGmailToolEnhanced w cache toolName args userId options =
           (Inl (Error ''Gmail not connected. Please connect your Gmail account first.''),
            [GetToken userId], cache)"
  using assms by (simp add: executeGmailToolEnhanced_def configured_def connected_def)

lemma execute_reaches_loop:
  assumes "cached_result w cache toolName args userId options = None"
    and "configured w" and "connected w userId"
  shows "executeGmailToolEnhanced w cache toolName args userId options =
           (case retry_loop (loop_ctx w toolName args userId options) 0 None cache of
              (r, tr, cache') \<Rightarrow> (r, GetToken userId # tr, cache'))"
  using assms
  by (simp add: executeGmailToolEnhanced_def configured_def connected_def)

lemma loop_ctx_url:
  assumes "configured w"
  shows "\<exists>u. gmail_server_url (ctx_smitheryApiKey (loop_ctx w toolName args userId options))
            (ctx_clientId (loop_ctx w toolName args userId options))
            (ctx_clientSecret (loop_ctx w toolName args userId options))
            (ctx_refreshToken (loop_ctx w toolName args userId options)) = Inr u"
proof -
  have "the (SMITHERY_API_KEY w) \<noteq> []"
    using assms by (auto simp: configured_def truthy_str_def split: option.splits)
  then show ?thesis
    by (simp add: loop_ctx_def gmail_server_url_ok)
qed

lemma failed_attempt_in_ctx:
  assumes "configured w" and "attempt_fails_with w toolName options k e"
  shows "\<exists>tr. run_attempt (loop_ctx w toolName args userId options) (int k) cache =
              (Inl e, tr, cache)
            \<and> length (connects tr) = 1 \<and> sleeps tr = [] \<and> token_lookups tr = []"
proof -
  let ?c = "loop_ctx w toolName args userId options"
  obtain u where u: "gmail_server_url (ctx_smitheryApiKey ?c) (ctx_clientId ?c)
      (ctx_clientSecret ?c) (ctx_refreshToken ?c) = Inr u"
    using loop_ctx_url [OF assms(1)] by blast
  have err: "attempt_error (timeout_error (ctx_toolName ?c) (ctx_timeout ?c))
      (remote (ctx_world ?c) (nat (int k))) = Some e"
    using assms(2) by (simp add: attempt_fails_with_def loop_ctx_def)
  from run_attempt_failure [OF u err attempt_error_no_reply [OF err], of cache]
  show ?thesis by auto
qed

lemma completed_attempt_in_ctx:
  assumes "configured w" and "attempt_completes_with w k res"
  shows "\<exists>tr cache'. run_attempt (loop_ctx w toolName args userId options) (int k) cache =
              (Inr (extract_result_text (reply_content res)), tr, cache')
            \<and> length (connects tr) = 1 \<and> sleeps tr = [] \<and> calls tr = [(toolName, args)]
            \<and> closes tr = 1"
proof -
  let ?c = "loop_ctx w toolName args userId options"
  obtain u where u: "gmail_server_url (ctx_smitheryApiKey ?c) (ctx_clientId ?c)
      (ctx_clientSecret ?c) (ctx_refreshToken ?c) = Inr u"
    using loop_ctx_url [OF assms(1)] by blast
  have rep: "attempt_reply (remote (ctx_world ?c) (nat (int k))) = Some res"
    using assms(2) by (simp add: attempt_completes_with_def loop_ctx_def)
  show ?thesis
    by (simp add: run_attempt_success [OF u rep]) (simp add: loop_ctx_def)
qed

text \<open>How a call that returns a result got it: from the cache, or from the loop.\<close>

lemma execute_returned_cases:
  assumes "returned (executeGmailToolEnhanced w cache toolName args userId options) = Inr v"
  shows "cached_result w cache toolName args userId options = Some v \<and>
           executeGmailToolEnhanced w cache toolName args userId options = (Inr v, [], cache)
         \<or> cached_result w cache toolName args userId options = None \<and> configured w \<and>
           connected w userId \<and>
           (\<exists>tr cache'. retry_loop (loop_ctx w toolName args userId options) 0 None cache =
                (Inr v, tr, cache') \<and>
              executeGmailToolEnhanced w cache toolName args userId options =
                (Inr v, GetToken userId # tr, cache'))"
proof (cases "cached_result w cache toolName args userId options")
  case (Some r)
  with assms show ?thesis
    by (simp add: executeGmailToolEnhanced_def returned_def)
next
  case None
  with assms have cfg: "configured w" and con: "connected w userId"
    by (auto simp: executeGmailToolEnhanced_def returned_def configured_def connected_def
        split: if_splits)
  obtain r tr cache' where rl:
    "retry_loop (loop_ctx w toolName args userId options) 0 None cache = (r, tr, cache')"
    by (cases "retry_loop (loop_ctx w toolName args userId options) 0 None cache") auto
  with assms None cfg con have "r = Inr v"
    by (simp add: execute_reaches_loop returned_def)
  with None cfg con rl show ?thesis
    by (simp add: execute_reaches_loop)
qed

text \<open>A call whose first attempt completes.\<close>

lemma first_attempt_completes:
  assumes "cached_result w cache toolName args userId options = None"
    and "configured w" and "connected w userId"
    and "0 \<le> retries_of options" and "attempt_completes_with w 0 res"
  shows "\<exists>u. gmail_server_url (the (SMITHERY_API_KEY w)) (the (GOOGLE_CLIENT_ID w))
               (the (GOOGLE_CLIENT_SECRET w)) (the (getUserGmailToken w userId)) = Inr u \<and>
             executeGmailToolEnhanced w cache toolName args userId options =
               (Inr (extract_result_text (reply_content res)),
                [GetToken userId, Connect u, CallTool toolName args, Close],
                if useCache_of options \<and> is_search_tool toolName
                then cache_store cache (cacheKey userId toolName args)
                       (extract_result_text (reply_content res)) (now_store (remote w 0))
                else cache)"
proof -
  let ?c = "loop_ctx w toolName args userId options"
  obtain u where u: "gmail_server_url (ctx_smitheryApiKey ?c) (ctx_clientId ?c)
      (ctx_clientSecret ?c) (ctx_refreshToken ?c) = Inr u"
    using loop_ctx_url [OF assms(2)] by blast
  have rep: "attempt_reply (remote (ctx_world ?c) (nat 0)) = Some res"
    using assms(5) by (simp add: attempt_completes_with_def loop_ctx_def)
  have le: "0 \<le> ctx_retries ?c" using assms(4) by (simp add: loop_ctx_def)
  note ra = run_attempt_success [OF u rep, of cache]
  have "retry_loop ?c 0 None cache =
      (Inr (extract_result_text (reply_content res)),
       [Connect u, CallTool toolName args, Close],
       if useCache_of options \<and> is_search_tool toolName
       then cache_store cache (cacheKey userId toolName args)
              (extract_result_text (reply_content res)) (now_store (remote w 0))
       else cache)"
    using retry_loop_completed_attempt [OF le ra, of None] by (simp add: loop_ctx_def)
  then have "executeGmailToolEnhanced w cache toolName args userId options =
      (Inr (extract_result_text (reply_content res)),
       [GetToken userId, Connect u, CallTool toolName args, Close],
       if useCache_of options \<and> is_search_tool toolName
       then cache_store cache (cacheKey userId toolName args)
              (extract_result_text (reply_content res)) (now_store (remote w 0))
       else cache)"
    by (simp add: execute_reaches_loop [OF assms(1,2,3)])
  with u show ?thesis by (auto simp: loop_ctx_def)
qed

text \<open>A call with two retries whose first two attempts fail.\<close>

lemma two_retries_outcome:
  assumes "retries_of options = 2"
    and "cached_result w cache toolName args userId options = None"
    and "configured w" and "connected w userId"
    and "attempt_fails_with w toolName options 0 e0"
    and "attempt_fails_with w toolName options 1 e1"
  shows "(attempt_fails_with w toolName options 2 e2 \<longrightarrow>
            (\<exists>tr. executeGmailToolEnhanced w cache toolName args userId options =
                    (Inl e2, tr, cache) \<and>
                  length (connects tr) = 3 \<and> sleeps tr = [1000, 2000])) \<and>
         (attempt_completes_with w 2 res \<longrightarrow>
            (\<exists>tr cache'. executeGmailToolEnhanced w cache toolName args userId options =
                    (Inr (extract_result_text (reply_content res)), tr, cache') \<and>
                  length (connects tr) = 3 \<and> sleeps tr = [1000, 2000]))"
proof -
  let ?c = "loop_ctx w toolName args userId options"
  have r: "ctx_retries ?c = 2"
    using assms(1) by (simp add: loop_ctx_def)
  obtain tr0 where a0: "run_attempt ?c 0 cache = (Inl e0, tr0, cache)"
    and t0: "length (connects tr0) = 1" "sleeps tr0 = []"
    using failed_attempt_in_ctx [OF assms(3) assms(5), of args userId cache] by auto
  obtain tr1 where a1: "run_attempt ?c 1 cache = (Inl e1, tr1, cache)"
    and t1: "length (connects tr1) = 1" "sleeps tr1 = []"
    using failed_attempt_in_ctx [OF assms(3) assms(6), of args userId cache] by auto
  have step0: "retry_loop ?c 0 None cache =
      (case retry_loop ?c 1 (Some e0) cache of
         (r, tr', cache'') \<Rightarrow> (r, tr0 @ [Sleep 1000] @ tr', cache''))"
    using retry_loop_failed_attempt [of 0 ?c cache e0 tr0 cache None] a0 r by simp
  have step1: "retry_loop ?c 1 (Some e0) cache =
      (case retry_loop ?c 2 (Some e1) cache of
         (r, tr', cache'') \<Rightarrow> (r, tr1 @ [Sleep 2000] @ tr', cache''))"
    using retry_loop_failed_attempt [of 1 ?c cache e1 tr1 cache "Some e0"] a1 r by simp
  note reach = execute_reaches_loop [OF assms(2) assms(3) assms(4)]
  show ?thesis
  proof (intro conjI impI)
    assume f2: "attempt_fails_with w toolName options 2 e2"
    obtain tr2 where a2: "run_attempt ?c 2 cache = (Inl e2, tr2, cache)"
      and t2: "length (connects tr2) = 1" "sleeps tr2 = []"
      using failed_attempt_in_ctx [OF assms(3) f2, of args userId cache] by auto
    have "retry_loop ?c 3 (Some e2) cache = (Inl e2, [], cache)"
      using retry_loop_exhausted [of 3 ?c e2 cache] r by simp
    then have l2: "retry_loop ?c 2 (Some e1) cache = (Inl e2, tr2, cache)"
      using retry_loop_failed_attempt [of 2 ?c cache e2 tr2 cache "Some e1"] a2 r by simp
    have "executeGmailToolEnhanced w cache toolName args userId options =
        (Inl e2, GetToken userId # tr0 @ [Sleep 1000] @ tr1 @ [Sleep 2000] @ tr2, cache)"
      by (simp add: reach step0 step1 l2)
    then show "\<exists>tr. executeGmailToolEnhanced w cache toolName args userId options =
                    (Inl e2, tr, cache) \<and>
                  length (connects tr) = 3 \<and> sleeps tr = [1000, 2000]"
      using t0 t1 t2 by simp
  next
    assume c2: "attempt_completes_with w 2 res"
    obtain tr2 cache' where a2: "run_attempt ?c 2 cache =
        (Inr (extract_result_text (reply_content res)), tr2, cache')"
      and t2: "length (connects tr2) = 1" "sleeps tr2 = []"
      using completed_attempt_in_ctx [OF assms(3) c2, of toolName args userId options cache]
      by auto
    have l2: "retry_loop ?c 2 (Some e1) cache =
        (Inr (extract_result_text (reply_content res)), tr2, cache')"
      using retry_loop_completed_attempt [OF _ a2] r by simp
    have "executeGmailToolEnhanced w cache toolName args userId options =
        (Inr (extract_result_text (reply_content res)),
         GetToken userId # tr0 @ [Sleep 1000] @ tr1 @ [Sleep 2000] @ tr2, cache')"
      by (simp add: reach step0 step1 l2)
    then show "\<exists>tr cache'. executeGmailToolEnhanced w cache toolName args userId options =
                    (Inr (extract_result_text (reply_content res)), tr, cache') \<and>
                  length (connects tr) = 3 \<and> sleeps tr = [1000, 2000]"
      using t0 t1 t2 by simp
  qed
qed

text \<open>
  A search that returned a result has left it in the cache under the call's key, and a
  later call with the same key that reads the clock within the time to live of that entry
  returns it with an empty trace.
\<close>

lemma served_again:
  assumes "cache_ok cache" and "is_search_tool toolName"
    and "useCache_of options" and "useCache_of options'"
    and "returned (executeGmailToolEnhanced w cache toolName args userId options) = Inr v"
  shows "\<exists>entry.
           map_get (cache_after (executeGmailToolEnhanced w cache toolName args userId options))
             (cacheKey userId toolName args) = Some entry \<and>
           result entry = v \<and>
           (now_lookup w' - timestamp entry < CACHE_TTL \<longrightarrow>
              executeGmailToolEnhanced w'
                (cache_after (executeGmailToolEnhanced w cache toolName args userId options))
                toolName args userId options' =
              (Inr v, [],
               cache_after (executeGmailToolEnhanced w cache toolName args userId options)))"
proof -
  let ?key = "cacheKey userId toolName args"
  let ?out = "executeGmailToolEnhanced w cache toolName args userId options"
  have entry: "\<exists>entry. map_get (cache_after ?out) ?key = Some entry \<and> result entry = v"
    using execute_returned_cases [OF assms(5)]
  proof (elim disjE conjE exE)
    assume "cached_result w cache toolName args userId options = Some v"
      and "?out = (Inr v, [], cache)"
    then show ?thesis
      using assms(2,3) by (auto simp: cached_result_def cache_lookup_entry cache_after_def)
  next
    fix tr cache'
    assume rl: "retry_loop (loop_ctx w toolName args userId options) 0 None cache =
        (Inr v, tr, cache')"
      and out: "?out = (Inr v, GetToken userId # tr, cache')"
    from retry_loop_completed [OF rl] assms(2,3)
    obtain j where "cache' = cache_store cache ?key v (now_store (remote w j))"
      by (auto simp: loop_ctx_def)
    then show ?thesis
      using assms(1) cache_store_get [of cache ?key v]
      by (simp add: out cache_after_def cache_ok_def)
  qed
  then obtain entry where e: "map_get (cache_after ?out) ?key = Some entry" "result entry = v"
    by blast
  have "now_lookup w' - timestamp entry < CACHE_TTL \<Longrightarrow>
      cached_result w' (cache_after ?out) toolName args userId options' = Some v"
    using e assms(2,4) by (simp add: cached_result_def cache_lookup_def)
  then show ?thesis
    using e execute_cache_hit by blast
qed

text \<open>Every call leaves a cache within its bound, with distinct non-empty keys.\<close>

lemma execute_cache_ok:
  assumes "cache_ok cache"
  shows "cache_ok (cache_after (executeGmailToolEnhanced w cache toolName args userId options))"
proof (cases "returned (executeGmailToolEnhanced w cache toolName args userId options)")
  case (Inr v)
  from execute_returned_cases [OF Inr] show ?thesis
  proof (elim disjE conjE exE)
    assume "executeGmailToolEnhanced w cache toolName args userId options = (Inr v, [], cache)"
    then show ?thesis using assms by (simp add: cache_after_def)
  next
    fix tr cache'
    assume rl: "retry_loop (loop_ctx w toolName args userId options) 0 None cache =
        (Inr v, tr, cache')"
      and out: "executeGmailToolEnhanced w cache toolName args userId options =
        (Inr v, GetToken userId # tr, cache')"
    from retry_loop_completed [OF rl]
    have "cache' = cache \<or> (\<exists>t. cache' = cache_store cache (cacheKey userId toolName args) v t)"
      by (auto simp: loop_ctx_def split: if_splits)
    then show ?thesis
      using assms cache_store_ok [OF assms cacheKey_nonempty]
      by (auto simp: out cache_after_def)
  qed
next
  case (Inl e)
  show ?thesis
  proof (cases "cached_result w cache toolName args userId options = None \<and> configured w \<and>
      connected w userId")
    case True
    obtain r tr cache' where rl:
      "retry_loop (loop_ctx w toolName args userId options) 0 None cache = (r, tr, cache')"
      by (cases "retry_loop (loop_ctx w toolName args userId options) 0 None cache") auto
    with True have out: "executeGmailToolEnhanced w cache toolName args userId options =
        (r, GetToken userId # tr, cache')"
      by (simp add: execute_reaches_loop)
    with Inl have "r = Inl e" by (simp add: returned_def)
    with rl have "cache' = cache" using retry_loop_failed_cache by blast
    then show ?thesis using assms by (simp add: out cache_after_def)
  next
    case False
    then have "cache_after (executeGmailToolEnhanced w cache toolName args userId options) =
        cache"
      by (cases "cached_result w cache toolName args userId options")
        (auto simp: executeGmailToolEnhanced_def cache_after_def configured_def connected_def)
    then show ?thesis using assms by simp
  qed
qed

text \<open>Unless a close after a reply is rejected, a call closes as often as it connects.\<close>

lemma closes_match_connects:
  assumes "\<forall>j. close_outcome (remote w j) = None"
  shows "closes (trace (executeGmailToolEnhanced w cache toolName args userId options)) =
         length (connects (trace (executeGmailToolEnhanced w cache toolName args userId
           options)))"
proof (cases "cached_result w cache toolName args userId options = None \<and> configured w \<and>
    connected w userId")
  case True
  obtain r tr cache' where rl:
    "retry_loop (loop_ctx w toolName args userId options) 0 None cache = (r, tr, cache')"
    by (cases "retry_loop (loop_ctx w toolName args userId options) 0 None cache") auto
  have "\<forall>j. close_outcome (remote (ctx_world (loop_ctx w toolName args userId options)) j) =
      None"
    using assms by (simp add: loop_ctx_def)
  from retry_loop_closes [OF this rl] True rl show ?thesis
    by (simp add: execute_reaches_loop trace_def)
next
  case False
  then show ?thesis
    by (cases "cached_result w cache toolName args userId options")
      (auto simp: executeGmailToolEnhanced_def trace_def configured_def connected_def)
qed

text \<open>
  The sleeps of a call are the delays 1000, 2000, 4000, ... in this order, one for each
  failed attempt that has a retry left.
\<close>

lemma backoff_doubles:
  "\<exists>n. sleeps (trace (executeGmailToolEnhanced w cache toolName args userId options)) =
         map (\<lambda>j. 2 ^ j * 1000) [0..<n] \<and>
       int n \<le> max 0 (retries_of options)"
proof (cases "cached_result w cache toolName args userId options = None \<and> configured w \<and>
    connected w userId")
  case True
  obtain r tr cache' where rl:
    "retry_loop (loop_ctx w toolName args userId options) 0 None cache = (r, tr, cache')"
    by (cases "retry_loop (loop_ctx w toolName args userId options) 0 None cache") auto
  from retry_loop_sleeps [OF _ rl] True rl show ?thesis
    by (simp add: execute_reaches_loop trace_def loop_ctx_def)
next
  case False
  then have "sleeps (trace (executeGmailToolEnhanced w cache toolName args userId options)) = []"
    by (cases "cached_result w cache toolName args userId options")
      (auto simp: executeGmailToolEnhanced_def trace_def configured_def connected_def)
  then show ?thesis by (intro exI [of _ 0]) simp
qed

lemma extract_result_text_head: "extract_result_text content = head_text_or_dump content"
proof (cases content)
  case (JArr xs)
  then show ?thesis
    by (cases xs) (simp_all add: extract_result_text_def json_dump_def)
qed (simp_all add: extract_result_text_def json_dump_def)

text \<open>A failed attempt of a call: its error, and the events it performed.\<close>

lemma failed_attempt_shape:
  assumes "configured w" and "attempt_fails_with w toolName options k e"
  shows "\<exists>u rest. gmail_server_url (the (SMITHERY_API_KEY w)) (the (GOOGLE_CLIENT_ID w))
               (the (GOOGLE_CLIENT_SECRET w)) (the (getUserGmailToken w userId)) = Inr u \<and>
            run_attempt (loop_ctx w toolName args userId options) (int k) cache =
              (Inl e, Connect u # rest, cache) \<and>
            set rest \<subseteq> {CallTool toolName args, Close}"
proof -
  let ?c = "loop_ctx w toolName args userId options"
  obtain u where u: "gmail_server_url (ctx_smitheryApiKey ?c) (ctx_clientId ?c)
      (ctx_clientSecret ?c) (ctx_refreshToken ?c) = Inr u"
    using loop_ctx_url [OF assms(1)] by blast
  have err: "attempt_error (timeout_error (ctx_toolName ?c) (ctx_timeout ?c))
      (remote (ctx_world ?c) (nat (int k))) = Some e"
    using assms(2) by (simp add: attempt_fails_with_def loop_ctx_def)
  from run_attempt_failure [OF u err attempt_error_no_reply [OF err], of cache]
  obtain tr where ra: "run_attempt ?c (int k) cache = (Inl e, tr, cache)" by blast
  from run_attempt_shape [OF u ra]
  obtain rest where "tr = Connect u # rest"
    "set rest \<subseteq> {CallTool (ctx_toolName ?c) (ctx_args ?c), Close}"
    by blast
  with ra u show ?thesis
    by (intro exI [of _ u] exI [of _ rest]) (simp add: loop_ctx_def)
qed

text \<open>
  The trace of a call with two retries whose first two attempts fail: the attempts, each
  beginning with its connect, with the sleep of 1000 between the first and the second and
  the sleep of 2000 between the second and the third.
\<close>

lemma two_retries_trace:
  assumes "retries_of options = 2"
    and "cached_result w cache toolName args userId options = None"
    and "configured w" and "connected w userId"
    and "attempt_fails_with w toolName options 0 e0"
    and "attempt_fails_with w toolName options 1 e1"
  shows "(attempt_fails_with w toolName options 2 e2 \<longrightarrow>
            (\<exists>u r0 r1 r2.
               trace (executeGmailToolEnhanced w cache toolName args userId options) =
                 GetToken userId # Connect u # r0 @ Sleep 1000 # Connect u # r1 @
                 Sleep 2000 # Connect u # r2 \<and>
               set (r0 @ r1 @ r2) \<subseteq> {CallTool toolName args, Close})) \<and>
         (attempt_completes_with w 2 res \<longrightarrow>
            (\<exists>u r0 r1.
               trace (executeGmailToolEnhanced w cache toolName args userId options) =
                 GetToken userId # Connect u # r0 @ Sleep 1000 # Connect u # r1 @
                 [Sleep 2000, Connect u, CallTool toolName args, Close] \<and>
               set (r0 @ r1) \<subseteq> {CallTool toolName args, Close}))"
proof -
  let ?c = "loop_ctx w toolName args userId options"
  let ?url = "gmail_server_url (the (SMITHERY_API_KEY w)) (the (GOOGLE_CLIENT_ID w))
      (the (GOOGLE_CLIENT_SECRET w)) (the (getUserGmailToken w userId))"
  have r: "ctx_retries ?c = 2"
    using assms(1) by (simp add: loop_ctx_def)
  obtain u r0 where u: "?url = Inr u"
    and a0: "run_attempt ?c 0 cache = (Inl e0, Connect u # r0, cache)"
    and s0: "set r0 \<subseteq> {CallTool toolName args, Close}"
    using failed_attempt_shape [OF assms(3) assms(5), of userId args cache] by auto
  obtain r1 where a1: "run_attempt ?c 1 cache = (Inl e1, Connect u # r1, cache)"
    and s1: "set r1 \<subseteq> {CallTool toolName args, Close}"
    using failed_attempt_shape [OF assms(3) assms(6), of userId args cache] u by auto
  have step0: "retry_loop ?c 0 None cache =
      (case retry_loop ?c 1 (Some e0) cache of
         (r, tr', cache'') \<Rightarrow> (r, (Connect u # r0) @ [Sleep 1000] @ tr', cache''))"
    using retry_loop_failed_attempt [of 0 ?c cache e0 "Connect u # r0" cache None] a0 r
    by simp
  have step1: "retry_loop ?c 1 (Some e0) cache =
      (case retry_loop ?c 2 (Some e1) cache of
         (r, tr', cache'') \<Rightarrow> (r, (Connect u # r1) @ [Sleep 2000] @ tr', cache''))"
    using retry_loop_failed_attempt [of 1 ?c cache e1 "Connect u # r1" cache "Some e0"] a1 r
    by simp
  note reach = execute_reaches_loop [OF assms(2) assms(3) assms(4)]
  show ?thesis
  proof (intro conjI impI)
    assume f2: "attempt_fails_with w toolName options 2 e2"
    obtain r2 where a2: "run_attempt ?c 2 cache = (Inl e2, Connect u # r2, cache)"
      and s2: "set r2 \<subseteq> {CallTool toolName args, Close}"
      using failed_attempt_shape [OF assms(3) f2, of userId args cache] u by auto
    have "retry_loop ?c 3 (Some e2) cache = (Inl e2, [], cache)"
      using retry_loop_exhausted [of 3 ?c e2 cache] r by simp
    then have l2: "retry_loop ?c 2 (Some e1) cache = (Inl e2, Connect u # r2, cache)"
      using retry_loop_failed_attempt [of 2 ?c cache e2 "Connect u # r2" cache "Some e1"] a2 r
      by simp
    have "trace (executeGmailToolEnhanced w cache toolName args userId options) =
        GetToken userId # Connect u # r0 @ Sleep 1000 # Connect u # r1 @
        Sleep 2000 # Connect u # r2"
      by (simp add: reach step0 step1 l2 trace_def)
    then show "\<exists>u r0 r1 r2.
        trace (executeGmailToolEnhanced w cache toolName args userId options) =
          GetToken userId # Connect u # r0 @ Sleep 1000 # Connect u # r1 @
          Sleep 2000 # Connect u # r2 \<and>
        set (r0 @ r1 @ r2) \<subseteq> {CallTool toolName args, Close}"
      using s0 s1 s2 by (intro exI [of _ u] exI [of _ r0] exI [of _ r1] exI [of _ r2]) simp
  next
    assume c2: "attempt_completes_with w 2 res"
    let ?c = "loop_ctx w toolName args userId options"
    have uc: "gmail_server_url (ctx_smitheryApiKey ?c) (ctx_clientId ?c)
        (ctx_clientSecret ?c) (ctx_refreshToken ?c) = Inr u"
      using u by (simp add: loop_ctx_def)
    have rep: "attempt_reply (remote (ctx_world ?c) (nat 2)) = Some res"
      using c2 by (simp add: attempt_completes_with_def loop_ctx_def)
    obtain cache' where a2: "run_attempt ?c 2 cache =
        (Inr (extract_result_text (reply_content res)),
         [Connect u, CallTool toolName args, Close], cache')"
      using run_attempt_success [OF uc rep, of cache] by (simp add: loop_ctx_def)
    have l2: "retry_loop ?c 2 (Some e1) cache =
        (Inr (extract_result_text (reply_content res)),
         [Connect u, CallTool toolName args, Close], cache')"
      using retry_loop_completed_attempt [OF _ a2] r by simp
    have "trace (executeGmailToolEnhanced w cache toolName args userId options) =
        GetToken userId # Connect u # r0 @ Sleep 1000 # Connect u # r1 @
        [Sleep 2000, Connect u, CallTool toolName args, Close]"
      by (simp add: reach step0 step1 l2 trace_def)
    then show "\<exists>u r0 r1.
        trace (executeGmailToolEnhanced w cache toolName args userId options) =
          GetToken userId # Connect u # r0 @ Sleep 1000 # Connect u # r1 @
          [Sleep 2000, Connect u, CallTool toolName args, Close] \<and>
        set (r0 @ r1) \<subseteq> {CallTool toolName args, Close}"
      using s0 s1 by (intro exI [of _ u] exI [of _ r0] exI [of _ r1]) simp
  qed
qed

text \<open>
  A call that reaches the loop returns the result text of the first attempt that completes
  within the retries, and returns a result in no other way.
\<close>

lemma first_reply_returned:
  assumes "cached_result w cache toolName args userId options = None"
    and "configured w" and "connected w userId"
  shows "(int k \<le> retries_of options \<and> (\<forall>j<k. \<forall>r. \<not> attempt_completes_with w j r) \<and>
          attempt_completes_with w k res \<longrightarrow>
            returned (executeGmailToolEnhanced w cache toolName args userId options) =
              Inr (head_text_or_dump (reply_content res))) \<and>
         (returned (executeGmailToolEnhanced w cache toolName args userId options) = Inr v \<longrightarrow>
            (\<exists>k res. int k \<le> retries_of options \<and>
               (\<forall>j<k. \<forall>r. \<not> attempt_completes_with w j r) \<and>
               attempt_completes_with w k res \<and>
               v = head_text_or_dump (reply_content res)))"
proof -
  let ?c = "loop_ctx w toolName args userId options"
  obtain u where u: "gmail_server_url (ctx_smitheryApiKey ?c) (ctx_clientId ?c)
      (ctx_clientSecret ?c) (ctx_refreshToken ?c) = Inr u"
    using loop_ctx_url [OF assms(2)] by blast
  note reach = execute_reaches_loop [OF assms]
  show ?thesis
  proof (intro conjI impI)
    assume a: "int k \<le> retries_of options \<and> (\<forall>j<k. \<forall>r. \<not> attempt_completes_with w j r) \<and>
        attempt_completes_with w k res"
    then have le: "int k \<le> ctx_retries ?c"
      and rep: "attempt_reply (remote (ctx_world ?c) k) = Some res"
      and none: "\<forall>j. 0 \<le> j \<and> j < k \<longrightarrow> attempt_reply (remote (ctx_world ?c) j) = None"
      by (auto simp: loop_ctx_def attempt_completes_with_def)
    from retry_loop_first_reply [OF u le rep _ none, of None cache]
    obtain tr cache' where "retry_loop ?c 0 None cache =
        (Inr (extract_result_text (reply_content res)), tr, cache')"
      by auto
    then show "returned (executeGmailToolEnhanced w cache toolName args userId options) =
        Inr (head_text_or_dump (reply_content res))"
      by (simp add: reach returned_def extract_result_text_head)
  next
    assume ret: "returned (executeGmailToolEnhanced w cache toolName args userId options) =
        Inr v"
    from execute_returned_cases [OF ret] assms(1)
    obtain tr cache' where "retry_loop ?c 0 None cache = (Inr v, tr, cache')"
      by auto
    from retry_loop_returns_first [OF u this]
    obtain k res where "int k \<le> ctx_retries ?c"
      "\<forall>j. j < k \<longrightarrow> attempt_reply (remote (ctx_world ?c) j) = None"
      "attempt_reply (remote (ctx_world ?c) k) = Some res"
      "v = extract_result_text (reply_content res)"
      by auto
    then show "\<exists>k res. int k \<le> retries_of options \<and>
        (\<forall>j<k. \<forall>r. \<not> attempt_completes_with w j r) \<and>
        attempt_completes_with w k res \<and>
        v = head_text_or_dump (reply_content res)"
      by (intro exI [of _ k] exI [of _ res])
        (simp add: loop_ctx_def attempt_completes_with_def extract_result_text_head)
  qed
qed

text \<open>
  A call that throws leaves the cache as it found it. A call for a search tool with the
  cache in use, on a cache that holds an entry under its key younger than the time to live,
  returns the entry's result and does nothing else.
\<close>

lemma failed_call_cache:
  assumes "returned (executeGmailToolEnhanced w cache toolName args userId options) = Inl e"
  shows "cache_after (executeGmailToolEnhanced w cache toolName args userId options) = cache"
proof (cases "cached_result w cache toolName args userId options = None \<and> configured w \<and>
    connected w userId")
  case True
  obtain r tr cache' where rl:
    "retry_loop (loop_ctx w toolName args userId options) 0 None cache = (r, tr, cache')"
    by (cases "retry_loop (loop_ctx w toolName args userId options) 0 None cache") auto
  with True have out: "executeGmailToolEnhanced w cache toolName args userId options =
      (r, GetToken userId # tr, cache')"
    by (simp add: execute_reaches_loop)
  with assms have "r = Inl e" by (simp add: returned_def)
  with rl have "cache' = cache" using retry_loop_failed_cache by blast
  then show ?thesis by (simp add: out cache_after_def)
next
  case False
  then show ?thesis
    by (cases "cached_result w cache toolName args userId options")
      (auto simp: executeGmailToolEnhanced_def cache_after_def configured_def connected_def)
qed

lemma held_entry_served:
  assumes "is_search_tool toolName" and "useCache_of options"
    and "map_get cache (cacheKey userId toolName args) = Some entry"
    and "now_lookup w - timestamp entry < CACHE_TTL"
  shows "executeGmailToolEnhanced w cache toolName args userId options =
           (Inr (result entry), [], cache)"
proof -
  have "cached_result w cache toolName args userId options = Some (result entry)"
    using assms by (simp add: cached_result_def cache_lookup_def)
  then show ?thesis by (rule execute_cache_hit)
qed

section \<open>The scenarios\<close>

lemma demo_world_sel [simp]:
  "configured (demo_world r now)" "connected (demo_world r now) ''alice''"
  "\<not> connected (demo_world r now) ''bob''"
  "remote (demo_world r now) = r" "now_lookup (demo_world r now) = now"
  "getUserGmailToken (demo_world r now) ''alice'' = Some ''token''"
  "SMITHERY_API_KEY (demo_world r now) = Some ''key''"
  "GOOGLE_CLIENT_ID (demo_world r now) = Some ''id''"
  "GOOGLE_CLIENT_SECRET (demo_world r now) = Some ''secret''"
  by (simp_all add: demo_world_def configured_def connected_def truthy_str_def)

lemma revoked_world_sel [simp]:
  "\<not> connected (revoked_world r now) userId" "now_lookup (revoked_world r now) = now"
  by (simp_all add: revoked_world_def connected_def truthy_str_def)

lemma options_sel [simp]:
  "useCache_of default_options" "retries_of default_options = 2"
  "timeout_of default_options = 45000"
  "useCache_of two_retries" "retries_of two_retries = 2" "timeout_of two_retries = 45000"
  "useCache_of no_retries" "retries_of no_retries = 0" "timeout_of no_retries = 45000"
  "\<not> useCache_of legacy_options" "retries_of legacy_options = 1"
  "timeout_of legacy_options = 45000"
  by (simp_all add: default_options_def two_retries_def no_retries_def legacy_options_def
      useCache_of_def retries_of_def timeout_of_def)

lemma text_reply_text [simp]:
  "extract_result_text (reply_content (text_reply s)) = JStr s"
  by (simp add: extract_result_text_def text_reply_def reply_content_def)

lemma answers_completes [simp]:
  "attempt_completes_with (demo_world (answers s t) now) k (text_reply s)"
  "now_store (answers s t k) = t"
  by (simp_all add: attempt_completes_with_def attempt_reply_def answers_def succeeds_with_def)

lemma always_down_fails [simp]:
  "attempt_fails_with (demo_world always_down now) toolName options 0 (Error ''first'')"
  "attempt_fails_with (demo_world always_down now) toolName options 1 (Error ''second'')"
  "attempt_fails_with (demo_world always_down now) toolName options 2 (Error ''third'')"
  "attempt_fails_with (demo_world always_down now) toolName options (Suc 0) (Error ''second'')"
  by (simp_all add: attempt_fails_with_def attempt_error_def always_down_def call_rejects_def)

lemma first_search_outcome:
  "\<exists>u. first_search =
     (Inr (JStr ''2 results''),
      [GetToken ''alice'', Connect u, CallTool ''list_messages'' demo_args, Close],
      [(cacheKey ''alice'' ''list_messages'' demo_args,
        \<lparr> result = JStr ''2 results'', timestamp = 2000 \<rparr>)])"
  using first_attempt_completes [of "demo_world (answers ''2 results'' 2000) 1000" "[]"
      "''list_messages''" demo_args "''alice''" default_options "text_reply ''2 results''"]
  by (auto simp: first_search_def cache_store_def map_set_def map_size_def Let_def)

lemma first_search_cache:
  "cache_after first_search =
     [(cacheKey ''alice'' ''list_messages'' demo_args,
       \<lparr> result = JStr ''2 results'', timestamp = 2000 \<rparr>)]"
proof -
  obtain u where eq: "first_search =
     (Inr (JStr ''2 results''),
      [GetToken ''alice'', Connect u, CallTool ''list_messages'' demo_args, Close],
      [(cacheKey ''alice'' ''list_messages'' demo_args,
        \<lparr> result = JStr ''2 results'', timestamp = 2000 \<rparr>)])"
    using first_search_outcome by blast
  show ?thesis unfolding cache_after_def eq by simp
qed

lemma first_search_returned: "returned first_search = Inr (JStr ''2 results'')"
proof -
  obtain u where eq: "first_search =
     (Inr (JStr ''2 results''),
      [GetToken ''alice'', Connect u, CallTool ''list_messages'' demo_args, Close],
      [(cacheKey ''alice'' ''list_messages'' demo_args,
        \<lparr> result = JStr ''2 results'', timestamp = 2000 \<rparr>)])"
    using first_search_outcome by blast
  show ?thesis unfolding returned_def eq by simp
qed

lemma failed_search_outcome:
  "\<exists>tr. failed_search = (Inl (Error ''third''), tr, []) \<and> length (connects tr) = 3"
  using two_retries_outcome [of default_options "demo_world always_down 1000" "[]"
      "''list_messages''" demo_args "''alice''" "Error ''first''" "Error ''second''"
      "Error ''third''" "[]"]
  by (auto simp: failed_search_def)


lemma retried_search_outcome:
  "\<exists>u. retried_search =
     (Inr (JStr ''2 results''),
      [GetToken ''alice'', Connect u, CallTool ''list_messages'' demo_args, Close],
      [(cacheKey ''alice'' ''list_messages'' demo_args,
        \<lparr> result = JStr ''2 results'', timestamp = 3000 \<rparr>)])"
proof -
  obtain tr where failed: "failed_search = (Inl (Error ''third''), tr, [])"
    using failed_search_outcome by blast
  have empty: "cache_after failed_search = []"
    unfolding cache_after_def failed by simp
  show ?thesis
    using first_attempt_completes [of "demo_world (answers ''2 results'' 3000) 2000" "[]"
        "''list_messages''" demo_args "''alice''" default_options "text_reply ''2 results''"]
    by (auto simp: retried_search_def empty cache_store_def map_set_def map_size_def Let_def)
qed

section \<open>The claims\<close>

subsection \<open>C1: a repeated search is served from the cache\<close>




subsection \<open>C2: other tools never touch the cache\<close>

text \<open>
  Claim C2. For a tool that is not one of the two search tools (so for every mutating
  tool: \<open>send_message\<close>, \<open>create_draft\<close>, \<open>create_label\<close>, ...), whatever the options
  are, the result and the trace of a call are the same on every cache, and the cache is
  left as it was found: nothing is read from it and nothing is stored into it. A result
  that such a call returns comes from a remote call made during that very call.
\<close>

theorem other_tools_bypass_cache:
  assumes "toolName \<noteq> ''list_messages''" and "toolName \<noteq> ''search_emails''"
  shows "\<exists>r tr. (\<forall>cache. executeGmailToolEnhanced w cache toolName args userId options =
            (r, tr, cache)) \<and>
          (\<forall>v. r = Inr v \<longrightarrow> (toolName, args) \<in> set (calls tr))"
proof -
  have ns: "\<not> is_search_tool toolName"
    using assms by (simp add: is_search_tool_def)
  then have miss: "\<And>cache. cached_result w cache toolName args userId options = None"
    by (simp add: cached_result_def)
  let ?c = "loop_ctx w toolName args userId options"
  have "\<not> (ctx_useCache ?c \<and> is_search_tool (ctx_toolName ?c))"
    using ns by (simp add: loop_ctx_def)
  from retry_loop_cache_free [OF this, of 0 None]
  obtain r tr where rl: "\<And>cache. retry_loop ?c 0 None cache = (r, tr, cache)" by blast
  have called: "(toolName, args) \<in> set (calls tr)" if "r = Inr v" for v
    using retry_loop_completed [of ?c 0 None "[]" v tr "[]"] rl that
    by (auto simp: loop_ctx_def)
  show ?thesis
  proof (cases "configured w")
    case False
    then have "\<And>cache. executeGmailToolEnhanced w cache toolName args userId options =
        (Inl (Error ''Gmail configuration missing''), [], cache)"
      using miss by (simp add: execute_not_configured)
    then show ?thesis by fastforce
  next
    case True
    show ?thesis
    proof (cases "connected w userId")
      case False
      with True have "\<And>cache. executeGmailToolEnhanced w cache toolName args userId options =
          (Inl (Error ''Gmail not connected. Please connect your Gmail account first.''),
           [GetToken userId], cache)"
        using miss by (simp add: execute_not_connected)
      then show ?thesis by fastforce
    next
      case con: True
      with True have "\<And>cache. executeGmailToolEnhanced w cache toolName args userId options =
          (r, GetToken userId # tr, cache)"
        using miss rl by (simp add: execute_reaches_loop)
      then show ?thesis
        using called by (intro exI [of _ r] exI [of _ "GetToken userId # tr"]) auto
    qed
  qed
qed

text \<open>
  A message sent with the cache in use, on a cache that already holds a result under the
  very key of this call: the remote is called all the same, and the cache is not changed.
\<close>

theorem other_tools_bypass_cache_witness:
  "\<exists>u. stale_send =
     (Inr (JStr ''Message sent''),
      [GetToken ''alice'', Connect u, CallTool ''send_message'' send_args, Close],
      stale_cache)"
proof -
  let ?w = "demo_world (answers ''Message sent'' 0) 0"
  obtain r tr where every: "\<And>cache. executeGmailToolEnhanced ?w cache ''send_message''
      send_args ''alice'' default_options = (r, tr, cache)"
    using other_tools_bypass_cache [of "''send_message''" ?w send_args "''alice''"
        default_options]
    by auto
  obtain u where "executeGmailToolEnhanced ?w [] ''send_message'' send_args ''alice''
      default_options =
        (Inr (JStr ''Message sent''),
         [GetToken ''alice'', Connect u, CallTool ''send_message'' send_args, Close], [])"
    using first_attempt_completes [of ?w "[]" "''send_message''" send_args "''alice''"
        default_options "text_reply ''Message sent''"]
    by auto
  with every [of "[]"] have "r = Inr (JStr ''Message sent'')"
    "tr = [GetToken ''alice'', Connect u, CallTool ''send_message'' send_args, Close]"
    by simp_all
  with every [of stale_cache] show ?thesis
    by (simp add: stale_send_def)
qed

subsection \<open>C3: three attempts, two doubling sleeps\<close>

text \<open>
  Claim C3. A call with \<open>retries = 2\<close> that reaches the loop (no cached result, the
  configuration and the credential present) and whose first two attempts fail. When the
  third attempt fails too, the call fails with the error of the third attempt, and its
  trace is: the credential lookup, the first attempt, a sleep of 1000 milliseconds, the
  second attempt, a sleep of 2000 milliseconds, the third attempt, and nothing after it.
  Each attempt begins with its connect and holds besides only the remote call and closes:
  so there are exactly three attempts, and the two sleeps lie between consecutive
  attempts, the second twice the first. When the third attempt completes, the call returns
  the result text of its reply, and the trace is the same up to the third connect, which
  is followed by the remote call and one close.
\<close>

theorem retries_two_backoff:
  assumes "retries_of options = 2"
    and "cached_result w cache toolName args userId options = None"
    and "configured w" and "connected w userId"
    and "attempt_fails_with w toolName options 0 e0"
    and "attempt_fails_with w toolName options 1 e1"
  shows "(attempt_fails_with w toolName options 2 e2 \<longrightarrow>
            returned (executeGmailToolEnhanced w cache toolName args userId options) = Inl e2 \<and>
            (\<exists>u r0 r1 r2.
               trace (executeGmailToolEnhanced w cache toolName args userId options) =
                 GetToken userId # Connect u # r0 @ Sleep 1000 # Connect u # r1 @
                 Sleep 2000 # Connect u # r2 \<and>
               set (r0 @ r1 @ r2) \<subseteq> {CallTool toolName args, Close}) \<and>
            length (connects (trace (executeGmailToolEnhanced w cache toolName args userId
              options))) = 3 \<and>
            sleeps (trace (executeGmailToolEnhanced w cache toolName args userId options)) =
              [1000, 2000]) \<and>
         (attempt_completes_with w 2 res \<longrightarrow>
            returned (executeGmailToolEnhanced w cache toolName args userId options) =
              Inr (extract_result_text (reply_content res)) \<and>
            (\<exists>u r0 r1.
               trace (executeGmailToolEnhanced w cache toolName args userId options) =
                 GetToken userId # Connect u # r0 @ Sleep 1000 # Connect u # r1 @
                 [Sleep 2000, Connect u, CallTool toolName args, Close] \<and>
               set (r0 @ r1) \<subseteq> {CallTool toolName args, Close}) \<and>
            length (connects (trace (executeGmailToolEnhanced w cache toolName args userId
              options))) = 3 \<and>
            sleeps (trace (executeGmailToolEnhanced w cache toolName args userId options)) =
              [1000, 2000])"
proof (intro conjI impI)
  assume f2: "attempt_fails_with w toolName options 2 e2"
  from two_retries_outcome [OF assms, of e2 res] f2
  show "returned (executeGmailToolEnhanced w cache toolName args userId options) = Inl e2"
    "length (connects (trace (executeGmailToolEnhanced w cache toolName args userId
       options))) = 3"
    "sleeps (trace (executeGmailToolEnhanced w cache toolName args userId options)) =
       [1000, 2000]"
    by (auto simp: returned_def trace_def)
  from two_retries_trace [OF assms, of e2 res] f2
  show "\<exists>u r0 r1 r2.
      trace (executeGmailToolEnhanced w cache toolName args userId options) =
        GetToken userId # Connect u # r0 @ Sleep 1000 # Connect u # r1 @
        Sleep 2000 # Connect u # r2 \<and>
      set (r0 @ r1 @ r2) \<subseteq> {CallTool toolName args, Close}"
    by blast
next
  assume c2: "attempt_completes_with w 2 res"
  from two_retries_outcome [OF assms, of e2 res] c2
  show "returned (executeGmailToolEnhanced w cache toolName args userId options) =
      Inr (extract_result_text (reply_content res))"
    "length (connects (trace (executeGmailToolEnhanced w cache toolName args userId
       options))) = 3"
    "sleeps (trace (executeGmailToolEnhanced w cache toolName args userId options)) =
       [1000, 2000]"
    by (auto simp: returned_def trace_def)
  from two_retries_trace [OF assms, of e2 res] c2
  show "\<exists>u r0 r1.
      trace (executeGmailToolEnhanced w cache toolName args userId options) =
        GetToken userId # Connect u # r0 @ Sleep 1000 # Connect u # r1 @
        [Sleep 2000, Connect u, CallTool toolName args, Close] \<and>
      set (r0 @ r1) \<subseteq> {CallTool toolName args, Close}"
    by blast
qed

text \<open>
  Both cases at a concrete remote: one that rejects every call, one that times out twice
  and then answers.
\<close>

theorem retries_two_backoff_witness:
  "returned (executeGmailToolEnhanced (demo_world always_down 0) [] ''list_messages'' demo_args
      ''alice'' two_retries) = Inl (Error ''third'') \<and>
   (\<exists>u r0 r1 r2.
      trace (executeGmailToolEnhanced (demo_world always_down 0) [] ''list_messages'' demo_args
        ''alice'' two_retries) =
        GetToken ''alice'' # Connect u # r0 @ Sleep 1000 # Connect u # r1 @
        Sleep 2000 # Connect u # r2 \<and>
      set (r0 @ r1 @ r2) \<subseteq> {CallTool ''list_messages'' demo_args, Close}) \<and>
   returned (executeGmailToolEnhanced (demo_world third_time_lucky 0) [] ''list_messages''
      demo_args ''alice'' two_retries) = Inr (JStr ''2 messages'') \<and>
   (\<exists>u r0 r1.
      trace (executeGmailToolEnhanced (demo_world third_time_lucky 0) [] ''list_messages''
        demo_args ''alice'' two_retries) =
        GetToken ''alice'' # Connect u # r0 @ Sleep 1000 # Connect u # r1 @
        [Sleep 2000, Connect u, CallTool ''list_messages'' demo_args, Close] \<and>
      set (r0 @ r1) \<subseteq> {CallTool ''list_messages'' demo_args, Close})"
proof -
  have lucky: "attempt_fails_with (demo_world third_time_lucky 0) ''list_messages'' two_retries 0
        (timeout_error ''list_messages'' 45000)"
    "attempt_fails_with (demo_world third_time_lucky 0) ''list_messages'' two_retries 1
        (timeout_error ''list_messages'' 45000)"
    "attempt_completes_with (demo_world third_time_lucky 0) 2 (text_reply ''2 messages'')"
    by (simp_all add: attempt_fails_with_def attempt_error_def attempt_completes_with_def
        attempt_reply_def third_time_lucky_def call_times_out_def succeeds_with_def)
  have down: "attempt_fails_with (demo_world always_down 0) ''list_messages'' two_retries 0
        (Error ''first'')"
    "attempt_fails_with (demo_world always_down 0) ''list_messages'' two_retries 1
        (Error ''second'')"
    "attempt_fails_with (demo_world always_down 0) ''list_messages'' two_retries 2
        (Error ''third'')"
    by simp_all
  have miss: "\<And>w. cached_result w [] ''list_messages'' demo_args ''alice'' two_retries = None"
    by simp
  note a = retries_two_backoff [OF options_sel(5) miss demo_world_sel(1) demo_world_sel(2)
      down(1) down(2), of "Error ''third''" "[]"]
  note b = retries_two_backoff [OF options_sel(5) miss demo_world_sel(1) demo_world_sel(2)
      lucky(1) lucky(2), of "Error ''unused''" "text_reply ''2 messages''"]
  from a down(3) b lucky(3) show ?thesis
    by (simp only: text_reply_text)
qed

subsection \<open>C4: a caller without a credential\<close>




subsection \<open>C5: closes and connects\<close>

text \<open>
  Claim C5 against the code. When connect and call resolve and the \<open>client.close()\<close> that
  follows the reply (line 166) rejects, the error reaches the inner \<open>catch\<close>, which calls
  \<open>client.close()\<close> a second time: with no retry, the call fails with the error of the
  close, after one connect, one remote call and two closes.
\<close>

theorem close_rejected_closes_twice:
  assumes "cached_result w cache toolName args userId options = None"
    and "configured w" and "connected w userId"
    and "retries_of options = 0"
    and "connect_outcome (remote w 0) = Resolves ()"
    and "callTool_outcome (remote w 0) = Resolves res"
    and "close_outcome (remote w 0) = Some e"
  shows "returned (executeGmailToolEnhanced w cache toolName args userId options) = Inl e \<and>
         length (connects (trace (executeGmailToolEnhanced w cache toolName args userId
           options))) = 1 \<and>
         calls (trace (executeGmailToolEnhanced w cache toolName args userId options)) =
           [(toolName, args)] \<and>
         closes (trace (executeGmailToolEnhanced w cache toolName args userId options)) = 2"
proof -
  let ?c = "loop_ctx w toolName args userId options"
  have r: "ctx_retries ?c = 0" using assms(4) by (simp add: loop_ctx_def)
  obtain u where u: "gmail_server_url (ctx_smitheryApiKey ?c) (ctx_clientId ?c)
      (ctx_clientSecret ?c) (ctx_refreshToken ?c) = Inr u"
    using loop_ctx_url [OF assms(2)] by blast
  have a0: "run_attempt ?c 0 cache =
      (Inl e, [Connect u, CallTool toolName args, Close, Close], cache)"
    using run_attempt_close_rejected [OF u, of 0 res e cache] assms(5,6,7)
    by (simp add: loop_ctx_def)
  have "retry_loop ?c 1 (Some e) cache = (Inl e, [], cache)"
    using retry_loop_exhausted [of 1 ?c e cache] r by simp
  then have "retry_loop ?c 0 None cache =
      (Inl e, [Connect u, CallTool toolName args, Close, Close], cache)"
    using retry_loop_failed_attempt [of 0 ?c cache e _ cache None] a0 r by simp
  then have "executeGmailToolEnhanced w cache toolName args userId options =
      (Inl e, [GetToken userId, Connect u, CallTool toolName args, Close, Close], cache)"
    by (simp add: execute_reaches_loop [OF assms(1,2,3)])
  then show ?thesis by (simp add: returned_def trace_def)
qed

text \<open>A message sent without retries through a remote whose first close is rejected.\<close>

theorem close_rejected_closes_twice_witness:
  "returned send_close_rejected = Inl (Error ''socket hang up'') \<and>
   length (connects (trace send_close_rejected)) = 1 \<and>
   calls (trace send_close_rejected) = [(''send_message'', send_args)] \<and>
   closes (trace send_close_rejected) = 2"
  using close_rejected_closes_twice [of "demo_world close_fails_once 0" "[]"
      "''send_message''" send_args "''alice''" no_retries "text_reply ''Message sent''"
      "Error ''socket hang up''"]
  by (simp add: send_close_rejected_def close_fails_once_def close_rejects_def)

subsection \<open>C6: the result text of a reply\<close>




subsection \<open>C7: the credential is read at every call\<close>

text \<open>
  Claim C7. On every cache, so after any history of earlier calls: a call that connects
  has looked the caller's credential up, once, and every URL it connects to carries the
  credential that the store holds for the caller at this call. The only state kept from one
  call to the next is the cache of result texts, which holds no credential. A call by a
  caller whose credential has been deleted therefore connects nowhere.
\<close>

theorem credential_fetched_per_call:
  assumes "Connect u \<in> set (trace (executeGmailToolEnhanced w cache toolName args userId
             options))"
  shows "\<exists>refreshToken. getUserGmailToken w userId = Some refreshToken \<and> refreshToken \<noteq> [] \<and>
           token_lookups (trace (executeGmailToolEnhanced w cache toolName args userId options)) =
             [userId] \<and>
           gmail_server_url (the (SMITHERY_API_KEY w)) (the (GOOGLE_CLIENT_ID w))
             (the (GOOGLE_CLIENT_SECRET w)) refreshToken = Inr u"
proof -
  let ?out = "executeGmailToolEnhanced w cache toolName args userId options"
  have miss: "cached_result w cache toolName args userId options = None"
    using assms by (cases "cached_result w cache toolName args userId options")
      (simp_all add: execute_cache_hit trace_def)
  have cfg: "configured w"
    using assms miss by (cases "configured w") (simp_all add: execute_not_configured trace_def)
  have con: "connected w userId"
    using assms miss cfg
    by (cases "connected w userId") (simp_all add: execute_not_connected trace_def)
  then obtain refreshToken where tok: "getUserGmailToken w userId = Some refreshToken"
    "refreshToken \<noteq> []"
    by (auto simp: connected_def truthy_str_def split: option.splits)
  obtain r tr cache' where rl:
    "retry_loop (loop_ctx w toolName args userId options) 0 None cache = (r, tr, cache')"
    by (cases "retry_loop (loop_ctx w toolName args userId options) 0 None cache") auto
  then have out: "?out = (r, GetToken userId # tr, cache')"
    using miss cfg con by (simp add: execute_reaches_loop)
  from assms out have "Connect u \<in> set tr" by (simp add: trace_def)
  with retry_loop_trace [OF rl] tok
  show ?thesis by (simp add: out trace_def loop_ctx_def)
qed

text \<open>The first search of \<open>alice\<close> connects with the token stored for her.\<close>

theorem credential_fetched_per_call_witness:
  "\<exists>u. Connect u \<in> set (trace first_search) \<and>
        token_lookups (trace first_search) = [''alice''] \<and>
        gmail_server_url ''key'' ''id'' ''secret'' ''token'' = Inr u"
proof -
  obtain u where eq: "first_search =
     (Inr (JStr ''2 results''),
      [GetToken ''alice'', Connect u, CallTool ''list_messages'' demo_args, Close],
      [(cacheKey ''alice'' ''list_messages'' demo_args,
        \<lparr> result = JStr ''2 results'', timestamp = 2000 \<rparr>)])"
    using first_search_outcome by blast
  have mem: "Connect u \<in> set (trace first_search)"
    unfolding trace_def eq by simp
  from credential_fetched_per_call [of u "demo_world (answers ''2 results'' 2000) 1000" "[]"
      "''list_messages''" demo_args "''alice''" default_options] mem
  have "token_lookups (trace first_search) = [''alice''] \<and>
        gmail_server_url ''key'' ''id'' ''secret'' ''token'' = Inr u"
    by (simp add: first_search_def)
  with mem show ?thesis by blast
qed

subsection \<open>C10: the legacy wrapper repeats a call\<close>

text \<open>
  Claim C10. \<open>sendMessage\<close>, \<open>createDraft\<close>, \<open>createLabel\<close> and \<open>getMessage\<close> run the
  executor with the cache off and one retry. When the caller is connected, the first
  attempt of \<open>sendMessage\<close> fails after its connect has resolved (the call times out, or is
  rejected, or the close after the reply is rejected) and the second attempt completes,
  the remote procedure \<open>send_message\<close> is called exactly twice with the same arguments
  within the one call, which returns the second reply's text.
\<close>

theorem legacy_wrapper_repeats_call:
  assumes "configured w" and "connected w userId"
    and "connect_outcome (remote w 0) = Resolves ()"
    and "attempt_fails_with w ''send_message'' legacy_options 0 e"
    and "attempt_completes_with w 1 res"
  shows "sendMessage userId w cache args =
           executeGmailToolEnhanced w cache ''send_message'' args userId legacy_options \<and>
         createDraft userId w cache args =
           executeGmailToolEnhanced w cache ''create_draft'' args userId legacy_options \<and>
         createLabel userId w cache args =
           executeGmailToolEnhanced w cache ''create_label'' args userId legacy_options \<and>
         getMessage userId w cache args =
           executeGmailToolEnhanced w cache ''get_message'' args userId legacy_options \<and>
         calls (trace (sendMessage userId w cache args)) =
           [(''send_message'', args), (''send_message'', args)] \<and>
         returned (sendMessage userId w cache args) =
           Inr (extract_result_text (reply_content res))"
proof -
  let ?c = "loop_ctx w ''send_message'' args userId legacy_options"
  have r: "ctx_retries ?c = 1" by (simp add: loop_ctx_def)
  have miss: "cached_result w cache ''send_message'' args userId legacy_options = None"
    by (simp add: cached_result_def)
  obtain u where u: "gmail_server_url (ctx_smitheryApiKey ?c) (ctx_clientId ?c)
      (ctx_clientSecret ?c) (ctx_refreshToken ?c) = Inr u"
    using loop_ctx_url [OF assms(1)] by blast
  have "\<exists>tr. run_attempt ?c 0 cache = (Inl e, tr, cache) \<and>
      calls tr = [(ctx_toolName ?c, ctx_args ?c)]"
    using assms(3,4)
    by (intro run_attempt_failure_after_connect [OF u])
      (simp_all add: loop_ctx_def attempt_fails_with_def)
  then obtain tr0 where a0: "run_attempt ?c 0 cache = (Inl e, tr0, cache)"
    and c0: "calls tr0 = [(''send_message'', args)]"
    by (auto simp: loop_ctx_def)
  obtain tr1 cache' where a1: "run_attempt ?c 1 cache =
      (Inr (extract_result_text (reply_content res)), tr1, cache')"
    and c1: "calls tr1 = [(''send_message'', args)]"
    using completed_attempt_in_ctx [OF assms(1) assms(5), of "''send_message''" args userId
        legacy_options cache]
    by auto
  have l1: "retry_loop ?c 1 (Some e) cache =
      (Inr (extract_result_text (reply_content res)), tr1, cache')"
    using retry_loop_completed_attempt [OF _ a1] r by simp
  have l0: "retry_loop ?c 0 None cache =
      (Inr (extract_result_text (reply_content res)), tr0 @ [Sleep 1000] @ tr1, cache')"
    using retry_loop_failed_attempt [of 0 ?c cache e tr0 cache None] a0 r l1 by simp
  have wrap: "sendMessage userId w cache args =
      executeGmailToolEnhanced w cache ''send_message'' args userId legacy_options"
    "createDraft userId w cache args =
      executeGmailToolEnhanced w cache ''create_draft'' args userId legacy_options"
    "createLabel userId w cache args =
      executeGmailToolEnhanced w cache ''create_label'' args userId legacy_options"
    "getMessage userId w cache args =
      executeGmailToolEnhanced w cache ''get_message'' args userId legacy_options"
    by (simp_all add: sendMessage_def createDraft_def createLabel_def getMessage_def
        executeGmailTool_def legacy_options_def)
  have out: "sendMessage userId w cache args =
      (Inr (extract_result_text (reply_content res)),
       GetToken userId # tr0 @ [Sleep 1000] @ tr1, cache')"
    by (simp add: wrap execute_reaches_loop [OF miss assms(1) assms(2)] l0)
  have "calls (trace (sendMessage userId w cache args)) =
      [(''send_message'', args), (''send_message'', args)]"
    by (simp add: out trace_def c0 c1)
  moreover have "returned (sendMessage userId w cache args) =
      Inr (extract_result_text (reply_content res))"
    by (simp add: out returned_def)
  ultimately show ?thesis using wrap by blast
qed

text \<open>
  A message sent while the first call to the remote times out and the second one is
  answered: the message is submitted twice.
\<close>

theorem legacy_wrapper_repeats_call_witness:
  "calls (trace repeated_send) = [(''send_message'', send_args), (''send_message'', send_args)] \<and>
   returned repeated_send = Inr (JStr ''Message sent'')"
proof -
  let ?w = "demo_world timeout_then_ok 0"
  have c: "connect_outcome (remote ?w 0) = Resolves ()"
    by (simp add: timeout_then_ok_def call_times_out_def)
  have f: "attempt_fails_with ?w ''send_message'' legacy_options 0
      (timeout_error ''send_message'' 45000)"
    by (simp add: attempt_fails_with_def attempt_error_def timeout_then_ok_def
        call_times_out_def)
  have s: "attempt_completes_with ?w 1 (text_reply ''Message sent'')"
    by (simp add: attempt_completes_with_def attempt_reply_def timeout_then_ok_def
        succeeds_with_def)
  from legacy_wrapper_repeats_call [OF demo_world_sel(1) demo_world_sel(2) c f s,
      of "[]" send_args]
  have "calls (trace (sendMessage ''alice'' ?w [] send_args)) =
      [(''send_message'', send_args), (''send_message'', send_args)] \<and>
    returned (sendMessage ''alice'' ?w [] send_args) =
      Inr (extract_result_text (reply_content (text_reply ''Message sent'')))"
    by blast
  then show ?thesis
    unfolding repeated_send_def by (simp only: text_reply_text)
qed

section \<open>The fuel of the JSON parser\<close>

text \<open>
  Every successful parse consumes a character, so the calls of the parser are on ever
  shorter texts, and the depth of the recursion is bounded by twice the length of the text.
\<close>

lemma skip_ws_length: "length (skip_ws s) \<le> length s"
  by (simp add: skip_ws_def length_dropWhile_le)

lemma dropWhile_shorter: "takeWhile P xs \<noteq> [] \<Longrightarrow> length (dropWhile P xs) < length xs"
  by (cases xs) (auto simp: le_imp_less_Suc length_dropWhile_le split: if_splits)

lemma strip_prefix_shorter: "strip_prefix p s = Some r \<Longrightarrow> p \<noteq> [] \<Longrightarrow> length r < length s"
  by (cases s) (auto simp: strip_prefix_def split: if_splits)

lemma parse_string_body_shorter:
  "parse_string_body cs = Some (str, r) \<Longrightarrow> length r < length cs"
proof (induction cs arbitrary: str r rule: parse_string_body.induct)
  case 1
  then show ?case by simp
next
  case (2 c cs)
  show ?case
  proof (cases "c = CHR 0x22")
    case True
    with "2.prems" show ?thesis by simp
  next
    case nq: False
    show ?thesis
    proof (cases "c = CHR 0x5C")
      case False
      with nq "2.prems" have ctl: "\<not> (of_char c :: nat) < 0x20"
        by (auto split: if_splits)
      from False nq ctl "2.prems" obtain s' where p: "parse_string_body cs = Some (s', r)"
        by (auto split: option.splits)
      from "2.IH"(3) [OF nq False ctl p] show ?thesis by simp
    next
      case True
      with nq "2.prems" obtain e cs' where cs: "cs = e # cs'"
        by (cases cs) auto
      show ?thesis
      proof (cases "e = CHR ''u''")
        case u: True
        with nq True cs "2.prems" obtain h1 h2 h3 h4 rest n s' where
          cs': "cs' = h1 # h2 # h3 # h4 # rest" and h: "hex4_value h1 h2 h3 h4 = Some n"
          and p: "parse_string_body rest = Some (s', r)"
          by (auto split: list.splits option.splits)
        from "2.IH"(1) [OF nq True cs u cs' refl refl refl h p] cs cs' show ?thesis by simp
      next
        case nu: False
        with nq True cs "2.prems" obtain ch s' where
          ue: "unescape e = Some ch" and p: "parse_string_body cs' = Some (s', r)"
          by (auto split: option.splits)
        from "2.IH"(2) [OF nq True cs nu ue p] cs show ?thesis by simp
      qed
    qed
  qed
qed

lemma optional_minus_length: "optional_minus s = (neg, r) \<Longrightarrow> length r \<le> length s"
  by (auto simp: optional_minus_def split: list.splits if_splits)

lemma optional_fraction_length: "optional_fraction s = Some (f, r) \<Longrightarrow> length r \<le> length s"
  by (auto simp: optional_fraction_def le_SucI length_dropWhile_le split: list.splits if_splits)

lemma optional_sign_length: "optional_sign s = (sg, r) \<Longrightarrow> length r \<le> length s"
  by (auto simp: optional_sign_def split: list.splits if_splits)

lemma optional_exponent_length: "optional_exponent s = Some (ex, r) \<Longrightarrow> length r \<le> length s"
proof (cases s)
  case Nil
  assume "optional_exponent s = Some (ex, r)"
  with Nil show ?thesis by (simp add: optional_exponent_def)
next
  case (Cons c cs)
  assume a: "optional_exponent s = Some (ex, r)"
  obtain sg ds where sg: "optional_sign cs = (sg, ds)" by (cases "optional_sign cs") auto
  have "length ds \<le> length cs" using optional_sign_length [OF sg] .
  moreover have "length (dropWhile is_digit ds) \<le> length ds" by (rule length_dropWhile_le)
  ultimately show ?thesis
    using a Cons sg by (auto simp: optional_exponent_def split: if_splits)
qed

lemma parse_number_shorter:
  assumes "parse_number s = Some (v, r)"
  shows "length r < length s"
proof -
  obtain neg s1 where m: "optional_minus s = (neg, s1)" by (cases "optional_minus s") auto
  from assms m have ip: "takeWhile is_digit s1 \<noteq> []"
    by (auto simp: parse_number_def Let_def split: if_splits)
  from assms m ip obtain frac s3 where f: "optional_fraction (dropWhile is_digit s1) = Some (frac, s3)"
    by (auto simp: parse_number_def Let_def split: if_splits option.splits)
  from assms m ip f obtain ex s4 where e: "optional_exponent s3 = Some (ex, s4)"
    by (auto simp: parse_number_def Let_def split: if_splits option.splits)
  from assms m ip f e have "r = s4"
    by (auto simp: parse_number_def Let_def split: if_splits)
  moreover note optional_minus_length [OF m] dropWhile_shorter [OF ip]
    optional_fraction_length [OF f] optional_exponent_length [OF e]
  ultimately show ?thesis by simp
qed

lemma skip_ws_Cons_length: "skip_ws s = d # ds \<Longrightarrow> length ds < length s"
  using skip_ws_length [of s] by simp

lemma value_consumes:
  assumes mem: "\<And>t ms r. parse_members n t = Some (ms, r) \<Longrightarrow> length r < length t"
    and elem: "\<And>t vs r. parse_elements n t = Some (vs, r) \<Longrightarrow> length r < length t"
    and "parse_value (Suc n) s = Some (v, r)"
  shows "length r < length s"
proof (cases s)
  case Nil
  with assms(3) show ?thesis by simp
next
  case (Cons c cs)
  consider (obj) "c = CHR ''{''" | (arr) "c \<noteq> CHR ''{''" "c = CHR ''[''"
    | (str) "c \<noteq> CHR ''{''" "c \<noteq> CHR ''[''" "c = CHR 0x22"
    | (num) "c \<noteq> CHR ''{''" "c \<noteq> CHR ''[''" "c \<noteq> CHR 0x22" "c = CHR ''-'' \<or> is_digit c"
    | (lit) "c \<noteq> CHR ''{''" "c \<noteq> CHR ''[''" "c \<noteq> CHR 0x22" "\<not> (c = CHR ''-'' \<or> is_digit c)"
    by blast
  then show ?thesis
  proof cases
    case obj
    with assms(3) Cons obtain d ds where sk: "skip_ws cs = d # ds"
      by (cases "skip_ws cs") auto
    show ?thesis
    proof (cases "d = CHR ''}''")
      case True
      with assms(3) Cons obj sk have "r = ds" by simp
      with skip_ws_Cons_length [OF sk] Cons show ?thesis by simp
    next
      case False
      with assms(3) Cons obj sk obtain ms where "parse_members n (d # ds) = Some (ms, r)"
        by (auto split: option.splits)
      from mem [OF this] skip_ws_length [of cs] sk Cons show ?thesis by simp
    qed
  next
    case arr
    with assms(3) Cons obtain d ds where sk: "skip_ws cs = d # ds"
      by (cases "skip_ws cs") auto
    show ?thesis
    proof (cases "d = CHR '']''")
      case True
      with assms(3) Cons arr sk have "r = ds" by simp
      with skip_ws_Cons_length [OF sk] Cons show ?thesis by simp
    next
      case False
      with assms(3) Cons arr sk obtain vs where "parse_elements n (d # ds) = Some (vs, r)"
        by (auto split: option.splits)
      from elem [OF this] skip_ws_length [of cs] sk Cons show ?thesis by simp
    qed
  next
    case str
    with assms(3) Cons obtain st where "parse_string_body cs = Some (st, r)"
      by (auto split: option.splits)
    from parse_string_body_shorter [OF this] Cons show ?thesis by simp
  next
    case num
    with assms(3) Cons have "parse_number s = Some (v, r)" by auto
    then show ?thesis by (rule parse_number_shorter)
  next
    case lit
    with assms(3) Cons have "strip_prefix ''true'' s = Some r \<or> strip_prefix ''false'' s = Some r
        \<or> strip_prefix ''null'' s = Some r"
      by (auto split: option.splits)
    then show ?thesis using strip_prefix_shorter by fastforce
  qed
qed

lemma elements_consume:
  assumes val: "\<And>t v r. parse_value n t = Some (v, r) \<Longrightarrow> length r < length t"
    and elem: "\<And>t vs r. parse_elements n t = Some (vs, r) \<Longrightarrow> length r < length t"
    and "parse_elements (Suc n) s = Some (vs, r)"
  shows "length r < length s"
proof -
  from assms(3) obtain v r0 where v: "parse_value n s = Some (v, r0)"
    by (auto split: option.splits)
  from assms(3) v obtain d ds where sk: "skip_ws r0 = d # ds"
    by (cases "skip_ws r0") auto
  note l0 = val [OF v] skip_ws_Cons_length [OF sk]
  show ?thesis
  proof (cases "d = CHR '',''")
    case True
    with assms(3) v sk obtain vs' where "parse_elements n (skip_ws ds) = Some (vs', r)"
      by (auto split: option.splits)
    from elem [OF this] skip_ws_length [of ds] l0 show ?thesis by simp
  next
    case False
    with assms(3) v sk have "r = ds" by (auto split: if_splits)
    with l0 show ?thesis by simp
  qed
qed

lemma members_consume:
  assumes val: "\<And>t v r. parse_value n t = Some (v, r) \<Longrightarrow> length r < length t"
    and mem: "\<And>t ms r. parse_members n t = Some (ms, r) \<Longrightarrow> length r < length t"
    and "parse_members (Suc n) s = Some (ms, r)"
  shows "length r < length s"
proof -
  from assms(3) obtain cs where s: "s = CHR 0x22 # cs"
    by (cases s) (auto split: if_splits)
  from assms(3) s obtain key r0 where k: "parse_string_body cs = Some (key, r0)"
    by (auto split: option.splits)
  from assms(3) s k obtain r1 where sk1: "skip_ws r0 = CHR '':'' # r1"
    by (cases "skip_ws r0") (auto split: if_splits)
  from assms(3) s k sk1 obtain v r2 where v: "parse_value n (skip_ws r1) = Some (v, r2)"
    by (auto split: option.splits)
  from assms(3) s k sk1 v obtain d ds where sk2: "skip_ws r2 = d # ds"
    by (cases "skip_ws r2") auto
  have l: "length ds < length s"
    using parse_string_body_shorter [OF k] skip_ws_Cons_length [OF sk1] val [OF v]
      skip_ws_length [of r1] skip_ws_Cons_length [OF sk2] s
    by simp
  show ?thesis
  proof (cases "d = CHR '',''")
    case True
    with assms(3) s k sk1 v sk2 obtain ms' where "parse_members n (skip_ws ds) = Some (ms', r)"
      by (auto split: option.splits)
    from mem [OF this] skip_ws_length [of ds] l show ?thesis by simp
  next
    case False
    with assms(3) s k sk1 v sk2 have "r = ds" by (auto split: if_splits)
    with l show ?thesis by simp
  qed
qed

lemma parse_consumes:
  "(\<forall>s v r. parse_value n s = Some (v, r) \<longrightarrow> length r < length s) \<and>
   (\<forall>s vs r. parse_elements n s = Some (vs, r) \<longrightarrow> length r < length s) \<and>
   (\<forall>s ms r. parse_members n s = Some (ms, r) \<longrightarrow> length r < length s)"
proof (induction n)
  case 0
  show ?case by simp
next
  case (Suc n)
  show ?case
    using value_consumes [of n] elements_consume [of n] members_consume [of n] Suc
    by blast
qed

lemma value_transfer:
  assumes "parse_value (Suc n) s = Some x"
    and elem: "\<And>t y. length t < length s \<Longrightarrow> parse_elements n t = Some y \<Longrightarrow>
                 parse_elements m t = Some y"
    and mem: "\<And>t y. length t < length s \<Longrightarrow> parse_members n t = Some y \<Longrightarrow>
                 parse_members m t = Some y"
  shows "parse_value (Suc m) s = Some x"
proof (cases s)
  case Nil
  with assms(1) show ?thesis by simp
next
  case (Cons c cs)
  consider (obj) "c = CHR ''{''" | (arr) "c \<noteq> CHR ''{''" "c = CHR ''[''"
    | (other) "c \<noteq> CHR ''{''" "c \<noteq> CHR ''[''"
    by blast
  then show ?thesis
  proof cases
    case obj
    with assms(1) Cons obtain d ds where sk: "skip_ws cs = d # ds"
      by (cases "skip_ws cs") auto
    show ?thesis
    proof (cases "d = CHR ''}''")
      case True
      with assms(1) Cons obj sk show ?thesis by simp
    next
      case False
      with assms(1) Cons obj sk obtain y where y: "parse_members n (d # ds) = Some y"
        by (auto split: option.splits)
      have "length (d # ds) < length s"
        using skip_ws_length [of cs] sk Cons by simp
      from mem [OF this y] y assms(1) Cons obj sk False show ?thesis by simp
    qed
  next
    case arr
    with assms(1) Cons obtain d ds where sk: "skip_ws cs = d # ds"
      by (cases "skip_ws cs") auto
    show ?thesis
    proof (cases "d = CHR '']''")
      case True
      with assms(1) Cons arr sk show ?thesis by simp
    next
      case False
      with assms(1) Cons arr sk obtain y where y: "parse_elements n (d # ds) = Some y"
        by (auto split: option.splits)
      have "length (d # ds) < length s"
        using skip_ws_length [of cs] sk Cons by simp
      from elem [OF this y] y assms(1) Cons arr sk False show ?thesis by simp
    qed
  next
    case other
    with assms(1) Cons show ?thesis by simp
  qed
qed

lemma elements_transfer:
  assumes "parse_elements (Suc n) s = Some x"
    and val: "\<And>y. parse_value n s = Some y \<Longrightarrow> parse_value m s = Some y"
    and elem: "\<And>t y. length t < length s \<Longrightarrow> parse_elements n t = Some y \<Longrightarrow>
                 parse_elements m t = Some y"
  shows "parse_elements (Suc m) s = Some x"
proof -
  from assms(1) obtain v r0 where v: "parse_value n s = Some (v, r0)"
    by (auto split: option.splits)
  from assms(1) v obtain d ds where sk: "skip_ws r0 = d # ds"
    by (cases "skip_ws r0") auto
  have l: "length ds < length s"
    using parse_consumes [of n] v skip_ws_Cons_length [OF sk] by fastforce
  note v' = val [OF v]
  show ?thesis
  proof (cases "d = CHR '',''")
    case True
    with assms(1) v sk obtain y where y: "parse_elements n (skip_ws ds) = Some y"
      by (auto split: option.splits)
    have "length (skip_ws ds) < length s"
      using skip_ws_length [of ds] l by simp
    from elem [OF this y] y assms(1) v v' sk True show ?thesis by simp
  next
    case False
    with assms(1) v v' sk show ?thesis by simp
  qed
qed

lemma members_transfer:
  assumes "parse_members (Suc n) s = Some x"
    and val: "\<And>t y. length t < length s \<Longrightarrow> parse_value n t = Some y \<Longrightarrow>
                parse_value m t = Some y"
    and mem: "\<And>t y. length t < length s \<Longrightarrow> parse_members n t = Some y \<Longrightarrow>
                parse_members m t = Some y"
  shows "parse_members (Suc m) s = Some x"
proof -
  from assms(1) obtain cs where s: "s = CHR 0x22 # cs"
    by (cases s) (auto split: if_splits)
  from assms(1) s obtain key r0 where k: "parse_string_body cs = Some (key, r0)"
    by (auto split: option.splits)
  from assms(1) s k obtain r1 where sk1: "skip_ws r0 = CHR '':'' # r1"
    by (cases "skip_ws r0") (auto split: if_splits)
  from assms(1) s k sk1 obtain v r2 where v: "parse_value n (skip_ws r1) = Some (v, r2)"
    by (auto split: option.splits)
  from assms(1) s k sk1 v obtain d ds where sk2: "skip_ws r2 = d # ds"
    by (cases "skip_ws r2") auto
  have l1: "length (skip_ws r1) < length s"
    using parse_string_body_shorter [OF k] skip_ws_Cons_length [OF sk1] skip_ws_length [of r1] s
    by simp
  have "length r2 < length (skip_ws r1)"
    using parse_consumes [of n] v by blast
  then have l2: "length ds < length s"
    using l1 skip_ws_Cons_length [OF sk2] by simp
  note v' = val [OF l1 v]
  show ?thesis
  proof (cases "d = CHR '',''")
    case True
    with assms(1) s k sk1 v sk2 obtain y where y: "parse_members n (skip_ws ds) = Some y"
      by (auto split: option.splits)
    have "length (skip_ws ds) < length s"
      using skip_ws_length [of ds] l2 by simp
    from mem [OF this y] y assms(1) s k sk1 v v' sk2 True show ?thesis by simp
  next
    case False
    with assms(1) s k sk1 v v' sk2 show ?thesis by simp
  qed
qed

text \<open>More fuel does not change a result.\<close>

lemma parse_fuel_Suc:
  "(\<forall>s x. parse_value n s = Some x \<longrightarrow> parse_value (Suc n) s = Some x) \<and>
   (\<forall>s x. parse_elements n s = Some x \<longrightarrow> parse_elements (Suc n) s = Some x) \<and>
   (\<forall>s x. parse_members n s = Some x \<longrightarrow> parse_members (Suc n) s = Some x)"
proof (induction n)
  case 0
  show ?case by simp
next
  case (Suc n)
  show ?case
    using value_transfer [of n _ _ "Suc n"] elements_transfer [of n _ _ "Suc n"]
      members_transfer [of n _ _ "Suc n"] Suc
    by blast
qed

lemma parse_fuel_mono:
  assumes "n \<le> m"
  shows "(parse_value n s = Some x \<longrightarrow> parse_value m s = Some x) \<and>
         (parse_elements n s = Some y \<longrightarrow> parse_elements m s = Some y) \<and>
         (parse_members n s = Some z \<longrightarrow> parse_members m s = Some z)"
  using assms
proof (induction m)
  case 0
  then show ?case by simp
next
  case (Suc m)
  show ?case
  proof (cases "n = Suc m")
    case True
    then show ?thesis by simp
  next
    case False
    with Suc.prems have "n \<le> m" by simp
    from Suc.IH [OF this] parse_fuel_Suc [of m] show ?thesis by blast
  qed
qed

text \<open>Twice the length of the text is fuel enough.\<close>

lemma parse_fuel_bound:
  "(\<forall>s x. parse_value n s = Some x \<longrightarrow> parse_value (2 * length s - 1) s = Some x) \<and>
   (\<forall>s x. parse_elements n s = Some x \<longrightarrow> parse_elements (2 * length s) s = Some x) \<and>
   (\<forall>s x. parse_members n s = Some x \<longrightarrow> parse_members (2 * length s) s = Some x)"
proof (induction n)
  case 0
  show ?case by simp
next
  case (Suc n)
  then have v: "\<And>s x. parse_value n s = Some x \<Longrightarrow> parse_value (2 * length s - 1) s = Some x"
    and e: "\<And>s x. parse_elements n s = Some x \<Longrightarrow> parse_elements (2 * length s) s = Some x"
    and m: "\<And>s x. parse_members n s = Some x \<Longrightarrow> parse_members (2 * length s) s = Some x"
    by blast+
  have nonempty: "s \<noteq> []" if "parse_value k s = Some x" for k s x
    using parse_consumes [of k] that by (cases x) fastforce
  have nonempty_e: "s \<noteq> []" if "parse_elements k s = Some x" for k s x
    using parse_consumes [of k] that by (cases x) fastforce
  have nonempty_m: "s \<noteq> []" if "parse_members k s = Some x" for k s x
    using parse_consumes [of k] that by (cases x) fastforce
  have "parse_value (2 * length s - 1) s = Some x" if a: "parse_value (Suc n) s = Some x" for s x
  proof -
    from nonempty [OF a] have f: "2 * length s - 1 = Suc (2 * length s - 2)"
      by (cases s) simp_all
    have "parse_value (Suc (2 * length s - 2)) s = Some x"
    proof (rule value_transfer [OF a])
      fix t y assume "length t < length s" and "parse_elements n t = Some y"
      then show "parse_elements (2 * length s - 2) t = Some y"
        using e [of t y] parse_fuel_mono [of "2 * length t" "2 * length s - 2" t _ y] by simp
    next
      fix t y assume "length t < length s" and "parse_members n t = Some y"
      then show "parse_members (2 * length s - 2) t = Some y"
        using m [of t y] parse_fuel_mono [of "2 * length t" "2 * length s - 2" t _ _ y] by simp
    qed
    with f show ?thesis by simp
  qed
  moreover have "parse_elements (2 * length s) s = Some x"
    if a: "parse_elements (Suc n) s = Some x" for s x
  proof -
    from nonempty_e [OF a] have f: "2 * length s = Suc (2 * length s - 1)"
      by (cases s) simp_all
    have "parse_elements (Suc (2 * length s - 1)) s = Some x"
    proof (rule elements_transfer [OF a])
      fix y assume "parse_value n s = Some y"
      then show "parse_value (2 * length s - 1) s = Some y" by (rule v)
    next
      fix t y assume "length t < length s" and "parse_elements n t = Some y"
      then show "parse_elements (2 * length s - 1) t = Some y"
        using e [of t y] parse_fuel_mono [of "2 * length t" "2 * length s - 1" t _ y] by simp
    qed
    with f show ?thesis by simp
  qed
  moreover have "parse_members (2 * length s) s = Some x"
    if a: "parse_members (Suc n) s = Some x" for s x
  proof -
    from nonempty_m [OF a] have f: "2 * length s = Suc (2 * length s - 1)"
      by (cases s) simp_all
    have "parse_members (Suc (2 * length s - 1)) s = Some x"
    proof (rule members_transfer [OF a])
      fix t y assume "length t < length s" and "parse_value n t = Some y"
      then show "parse_value (2 * length s - 1) t = Some y"
        using v [of t y] parse_fuel_mono [of "2 * length t - 1" "2 * length s - 1" t y] by simp
    next
      fix t y assume "length t < length s" and "parse_members n t = Some y"
      then show "parse_members (2 * length s - 1) t = Some y"
        using m [of t y] parse_fuel_mono [of "2 * length t" "2 * length s - 1" t _ _ y] by simp
    qed
    with f show ?thesis by simp
  qed
  ultimately show ?case by blast
qed

text \<open>
  So the fuel that \<open>JSON_parse\<close> starts with is never what makes a text unparseable: a
  value found with any fuel is the value \<open>JSON_parse\<close> returns.
\<close>

lemma JSON_parse_enough_fuel:
  assumes "parse_value n (skip_ws text) = Some (v, r)" and "skip_ws r = []"
  shows "JSON_parse text = Inr v"
proof -
  have "parse_value (2 * length (skip_ws text) - 1) (skip_ws text) = Some (v, r)"
    using parse_fuel_bound [of n] assms(1) by blast
  moreover have "2 * length (skip_ws text) - 1 \<le> 2 * length text + 2"
    using skip_ws_length [of "text"] by simp
  ultimately have "parse_value (2 * length text + 2) (skip_ws text) = Some (v, r)"
    using parse_fuel_mono by blast
  with assms(2) show ?thesis by (simp add: JSON_parse_def)
qed

section \<open>Properties of the list normalizer\<close>

lemma is_array_prop_truthy: "is_array (get_prop v name) \<Longrightarrow> truthy v"
  by (cases v) simp_all

lemma parse_unparseable: "JSON_parse ''Request failed'' = Inl (Error ''SyntaxError'')"
  by code_simp

lemma parse_no_messages:
  "JSON_parse ''{\"resultSizeEstimate\": 0}'' = Inr (JObj [(''resultSizeEstimate'', JNum 0)])"
  by code_simp

lemma parse_empty_messages:
  "JSON_parse ''{\"messages\": []}'' = Inr (JObj [(''messages'', JArr [])])"
  by code_simp

lemma parse_null_message:
  "JSON_parse ''{\"messages\": [null]}'' = Inr (JObj [(''messages'', JArr [JNull])])"
  by code_simp

text \<open>
  Claim C8. The list normalizer is a total function from texts to texts, whatever the
  formatting of a message does. It returns its input unchanged when the input is not
  parseable as JSON, when the parsed value has no \<open>messages\<close> array, and when the
  formatting of a message throws; it returns the fixed sentence
  \<open>No emails found matching your search criteria.\<close> when the \<open>messages\<close> array is empty.
\<close>

theorem list_normalizer_fail_open:
  "(JSON_parse emailData = Inl e \<longrightarrow> formatEmailResults email_block emailData = emailData) \<and>
   (JSON_parse emailData = Inr parsed \<and> \<not> is_array (get_prop parsed ''messages'') \<longrightarrow>
      formatEmailResults email_block emailData = emailData) \<and>
   (JSON_parse emailData = Inr parsed \<and> get_prop parsed ''messages'' = JArr [] \<longrightarrow>
      formatEmailResults email_block emailData =
        ''No emails found matching your search criteria.'') \<and>
   (JSON_parse emailData = Inr parsed \<and> get_prop parsed ''messages'' = JArr emails \<and>
    forEach_email email_block 0 emails (found_header (length emails)) = Inl e' \<longrightarrow>
      formatEmailResults email_block emailData = emailData)"
proof (intro conjI impI)
  assume "JSON_parse emailData = Inl e"
  then show "formatEmailResults email_block emailData = emailData"
    by (simp add: formatEmailResults_def)
next
  assume "JSON_parse emailData = Inr parsed \<and> \<not> is_array (get_prop parsed ''messages'')"
  then show "formatEmailResults email_block emailData = emailData"
    by (simp add: formatEmailResults_def)
next
  assume a: "JSON_parse emailData = Inr parsed \<and> get_prop parsed ''messages'' = JArr []"
  then have "truthy parsed" using is_array_prop_truthy [of parsed "''messages''"] by simp
  with a show "formatEmailResults email_block emailData =
      ''No emails found matching your search criteria.''"
    by (simp add: formatEmailResults_def)
next
  assume a: "JSON_parse emailData = Inr parsed \<and> get_prop parsed ''messages'' = JArr emails \<and>
    forEach_email email_block 0 emails (found_header (length emails)) = Inl e'"
  then have "truthy parsed" using is_array_prop_truthy [of parsed "''messages''"] by simp
  with a show "formatEmailResults email_block emailData = emailData"
    by (cases emails) (simp_all add: formatEmailResults_def Let_def)
qed

text \<open>
  A text that is not JSON, an object without \<open>messages\<close>, an empty list, and a list whose
  message makes the formatting throw.
\<close>

theorem list_normalizer_fail_open_witness:
  "formatEmailResults throwing_block ''Request failed'' = ''Request failed'' \<and>
   formatEmailResults throwing_block ''{\"resultSizeEstimate\": 0}'' =
     ''{\"resultSizeEstimate\": 0}'' \<and>
   formatEmailResults throwing_block ''{\"messages\": []}'' =
     ''No emails found matching your search criteria.'' \<and>
   formatEmailResults throwing_block ''{\"messages\": [null]}'' = ''{\"messages\": [null]}''"
proof -
  have thrown: "forEach_email throwing_block 0 [JNull] (found_header (length [JNull])) =
      Inl (TypeError ''Cannot read properties of null'')"
    by (simp add: throwing_block_def)
  show ?thesis
    using list_normalizer_fail_open [of "''Request failed''" "Error ''SyntaxError''"
        throwing_block JNull "[]" "Error ''''"]
      list_normalizer_fail_open [of "''{\"resultSizeEstimate\": 0}''" "Error ''''"
        throwing_block "JObj [(''resultSizeEstimate'', JNum 0)]" "[]" "Error ''''"]
      list_normalizer_fail_open [of "''{\"messages\": []}''" "Error ''''"
        throwing_block "JObj [(''messages'', JArr [])]" "[]" "Error ''''"]
      list_normalizer_fail_open [of "''{\"messages\": [null]}''" "Error ''''"
        throwing_block "JObj [(''messages'', JArr [JNull])]" "[JNull]"
        "TypeError ''Cannot read properties of null''"]
      parse_unparseable parse_no_messages parse_empty_messages parse_null_message thrown
    by simp
qed

end
